theory Spec2Isabelle
  imports Complex_Main "HOL-Library.Word"
begin

section \<open>The wall follower node\<close>

text \<open>
  A shallow embedding of \<^verbatim>\<open>wall_follower.cpp\<close>. The node's member variables and the
  function-local statics of \<^verbatim>\<open>odom_callback\<close> form one record that every callback takes
  and returns. C++ \<^verbatim>\<open>double\<close> and \<^verbatim>\<open>float\<close> values are read as real numbers (no rounding,
  no NaN, no infinity), the \<^verbatim>\<open>int\<close> counter as a 32-bit word read in two's complement.
  \<^verbatim>\<open>RCLCPP_INFO\<close> logging has no effect on the node and is left out; the line written to
  \<^verbatim>\<open>stderr\<close> by \<^verbatim>\<open>odom_callback\<close> is kept, since it marks the near-start detection.
\<close>

subsection \<open>Messages\<close>

text \<open>\<^verbatim>\<open>geometry_msgs::msg::Twist\<close>: the node sets \<^verbatim>\<open>linear.x\<close> and \<^verbatim>\<open>angular.z\<close> only.\<close>

record Twist =
  linear_x :: real
  angular_z :: real

text \<open>\<^verbatim>\<open>sensor_msgs::msg::LaserScan\<close>: the two fields that \<^verbatim>\<open>scan_callback\<close> reads.\<close>

record LaserScan =
  range_max :: real
  ranges :: "real list"

type_synonym quaternion = "real \<times> real \<times> real \<times> real"

text \<open>\<^verbatim>\<open>nav_msgs::msg::Odometry\<close>: position and orientation of \<^verbatim>\<open>pose.pose\<close>.\<close>

record Odometry =
  position_x :: real
  position_y :: real
  orientation :: quaternion

subsection \<open>Node state\<close>

text \<open>
  \<^verbatim>\<open>scan_data_\<close> is \<^verbatim>\<open>double[12]\<close>, a list that every callback keeps at length 12
  (the fields \<open>scan_data\<close> and \<open>robot_pose\<close> drop the trailing underscore of the members).
  \<^verbatim>\<open>first\<close> and \<^verbatim>\<open>start_moving\<close> are the statics of \<^verbatim>\<open>odom_callback\<close>.
  \<^verbatim>\<open>initial_scan\<close> and \<^verbatim>\<open>new_scan_data\<close> are used by the callbacks; the header at hand
  declares \<^verbatim>\<open>new_scan_data_\<close> and \<^verbatim>\<open>since_new_scan\<close> only.
\<close>

record WallFollower =
  robot_pose :: real
  start_x :: real
  start_y :: real
  near_start :: bool
  scan_data :: "real list"
  initial_scan :: bool
  new_scan_data :: bool
  since_new_scan :: "32 word"
  first :: bool
  start_moving :: bool

definition FRONT :: nat where "FRONT = 0"
definition FRONT_LEFT :: nat where "FRONT_LEFT = 1"
definition LEFT_FRONT :: nat where "LEFT_FRONT = 2"
definition FRONT_RIGHT :: nat where "FRONT_RIGHT = 11"

definition BASE_FACTOR :: real where "BASE_FACTOR = 0.8"
definition START_RANGE :: real where "START_RANGE = 0.2"
definition BEAM_WIDTH :: nat where "BEAM_WIDTH = 10"

text \<open>
  Modelled from the spec: the initial values of \<^verbatim>\<open>initial_scan\<close> and \<^verbatim>\<open>new_scan_data\<close>,
  whose declarations are missing from the header at hand (it initialises
  \<^verbatim>\<open>new_scan_data_\<close> to \<^verbatim>\<open>false\<close>): on a new node no scan has been received and none is
  pending.
\<close>

definition initial_scan_init :: bool where
  "initial_scan_init = False"

definition new_scan_data_init :: bool where
  "new_scan_data_init = False"

text \<open>
  The constructor: twelve zero clearances, \<^verbatim>\<open>robot_pose_ = 0\<close>, \<^verbatim>\<open>near_start = false\<close>.
  \<^verbatim>\<open>start_x\<close> and \<^verbatim>\<open>start_y\<close> are left uninitialised by the code, so their contents are
  parameters. The statics start \<^verbatim>\<open>true\<close>, \<^verbatim>\<open>since_new_scan\<close> starts 0.
\<close>

definition WallFollower_new :: "real \<Rightarrow> real \<Rightarrow> WallFollower" where
  "WallFollower_new sx sy =
     \<lparr>robot_pose = 0, start_x = sx, start_y = sy, near_start = False,
      scan_data = replicate 12 0, initial_scan = initial_scan_init,
      new_scan_data = new_scan_data_init,
      since_new_scan = 0, first = True, start_moving = True\<rparr>"

declare initial_scan_init_def [simp] new_scan_data_init_def [simp]

subsection \<open>Pose updates\<close>

text \<open>
  \<^verbatim>\<open>tf2::Matrix3x3::getRPY\<close> is library code: it is a parameter giving roll, pitch and yaw
  of a quaternion. The second component of the result is what the call writes to
  \<^verbatim>\<open>stderr\<close>.
\<close>

definition odom_callback ::
  "(quaternion \<Rightarrow> real \<times> real \<times> real) \<Rightarrow> WallFollower \<Rightarrow> Odometry \<Rightarrow> WallFollower \<times> string list" where
  "odom_callback getRPY s0 msg =
     (case getRPY (orientation msg) of (roll, pitch, yaw) \<Rightarrow>
      let s = s0\<lparr>robot_pose := yaw\<rparr>;
          current_x = position_x msg;
          current_y = position_y msg
      in if first s then
           (s\<lparr>start_x := current_x, start_y := current_y, first := False\<rparr>, [])
         else if start_moving s then
           (if \<bar>current_x - start_x s\<bar> > START_RANGE \<or> \<bar>current_y - start_y s\<bar> > START_RANGE
            then (s\<lparr>start_moving := False\<rparr>, [])
            else (s, []))
         else if \<bar>current_x - start_x s\<bar> < START_RANGE \<and> \<bar>current_y - start_y s\<bar> < START_RANGE then
           (s\<lparr>near_start := True, first := True, start_moving := True\<rparr>, [''Near start!!''])
         else (s, []))"

subsection \<open>Scans\<close>

text \<open>\<^verbatim>\<open>std::vector::at\<close> throws \<^verbatim>\<open>std::out_of_range\<close> for an index past the end.\<close>

datatype exn = out_of_range nat

definition vector_at :: "real list \<Rightarrow> nat \<Rightarrow> exn + real" where
  "vector_at v n = (if n < length v then Inr (v ! n) else Inl (out_of_range n))"

text \<open>
  The inner loop
  \<^verbatim>\<open>for (angle = lo; angle < hi; angle++) if (ranges.at(angle) < closest) closest = ranges.at(angle);\<close>
\<close>

function closest_loop :: "real list \<Rightarrow> nat \<Rightarrow> nat \<Rightarrow> real \<Rightarrow> exn + real" where
  "closest_loop v angle hi closest =
     (if angle < hi then
        (case vector_at v angle of
           Inl e \<Rightarrow> Inl e
         | Inr r \<Rightarrow> closest_loop v (angle + 1) hi (if r < closest then r else closest))
      else Inr closest)"
  by pat_completeness auto
termination
  by (relation "measure (\<lambda>(v, angle, hi, closest). hi - angle)") auto

declare closest_loop.simps [simp del]

definition scan_angle :: "nat list" where
  "scan_angle = [0, 30, 60, 90, 120, 150, 180, 210, 240, 270, 300, 330]"

text \<open>
  The outer loop \<^verbatim>\<open>for (i = 1; i < 12; i++)\<close>: an exception leaves the entries written so
  far in place.
\<close>

function sector_loop :: "LaserScan \<Rightarrow> nat \<Rightarrow> WallFollower \<Rightarrow> exn option \<times> WallFollower" where
  "sector_loop msg i s =
     (if i < 12 then
        (case closest_loop (ranges msg) (scan_angle ! i - BEAM_WIDTH) (scan_angle ! i + BEAM_WIDTH)
                (range_max msg) of
           Inl e \<Rightarrow> (Some e, s)
         | Inr closest \<Rightarrow> sector_loop msg (i + 1) (s\<lparr>scan_data := (scan_data s)[i := closest]\<rparr>))
      else (None, s))"
  by pat_completeness auto
termination
  by (relation "measure (\<lambda>(msg, i, s). 12 - i)") auto

declare sector_loop.simps [simp del]

text \<open>
  \<^verbatim>\<open>scan_callback\<close> returns the exception it throws, if any, and the node as the call
  leaves it: assignments made before a throw stay.
\<close>

definition scan_callback :: "WallFollower \<Rightarrow> LaserScan \<Rightarrow> exn option \<times> WallFollower" where
  "scan_callback s0 msg =
     (let s1 = (if \<not> initial_scan s0 then s0\<lparr>initial_scan := True\<rparr> else s0);
          s2 = s1\<lparr>new_scan_data := True\<rparr>
      in case closest_loop (ranges msg) (360 - BEAM_WIDTH) 360 (range_max msg) of
           Inl e \<Rightarrow> (Some e, s2)
         | Inr closest \<Rightarrow>
             (case closest_loop (ranges msg) 0 BEAM_WIDTH closest of
                Inl e \<Rightarrow> (Some e, s2)
              | Inr closest \<Rightarrow>
                  sector_loop msg 1 (s2\<lparr>scan_data := (scan_data s2)[0 := closest]\<rparr>)))"

subsection \<open>The control tick\<close>

text \<open>The result is the list of messages handed to the publisher.\<close>

definition update_cmd_vel :: "real \<Rightarrow> real \<Rightarrow> real \<Rightarrow> Twist list" where
  "update_cmd_vel lin ang fac =
     [\<lparr>linear_x = lin * fac, angular_z = ang * fac\<rparr>]"

text \<open>\<^verbatim>\<open>pow\<close> with an \<^verbatim>\<open>int\<close> exponent.\<close>

definition pow :: "real \<Rightarrow> int \<Rightarrow> real" where
  "pow b n = (if 0 \<le> n then b ^ nat n else 1 / b ^ nat (- n))"

definition factor :: "WallFollower \<Rightarrow> real" where
  "factor s = pow BASE_FACTOR (sint (since_new_scan s))"

definition update_velocity :: "WallFollower \<Rightarrow> Twist list" where
  "update_velocity s =
     (if near_start s then update_cmd_vel 0.0 0.0 (factor s)
      else if scan_data s ! LEFT_FRONT > 0.9 then update_cmd_vel 0.2 1.5 (factor s)
      else if scan_data s ! FRONT < 0.7 then update_cmd_vel 0.0 (- 1.5) (factor s)
      else if scan_data s ! FRONT_LEFT < 0.6 then update_cmd_vel 0.3 (- 1.5) (factor s)
      else if scan_data s ! FRONT_RIGHT < 0.6 then update_cmd_vel 0.3 1.5 (factor s)
      else if scan_data s ! LEFT_FRONT > 0.6 then update_cmd_vel 0.3 1.5 (factor s)
      else update_cmd_vel 0.3 0.0 (factor s))"

text \<open>
  \<^verbatim>\<open>since_new_scan++\<close> is addition on the 32-bit word: it wraps at \<^verbatim>\<open>INT_MAX\<close>, where
  the C++ operation is undefined.
\<close>

definition update_callback :: "WallFollower \<Rightarrow> WallFollower \<times> Twist list" where
  "update_callback s =
     (if \<not> initial_scan s then (s, [])
      else let s' = (if new_scan_data s
                     then s\<lparr>new_scan_data := False, since_new_scan := 0\<rparr>
                     else s\<lparr>since_new_scan := since_new_scan s + 1\<rparr>)
           in (s', update_velocity s'))"

subsection \<open>The executor\<close>

text \<open>
  \<^verbatim>\<open>rclcpp::spin\<close> delivers scans, pose updates and timer expiries to the callbacks one
  at a time. \<^verbatim>\<open>main\<close> has no handler, so an exception leaving a callback ends the
  process: nothing is delivered or published after it.
\<close>

datatype event = Scan LaserScan | Odom Odometry | Timer

datatype process = Alive WallFollower | Terminated exn

fun dispatch ::
  "(quaternion \<Rightarrow> real \<times> real \<times> real) \<Rightarrow> WallFollower \<Rightarrow> event \<Rightarrow> process \<times> Twist list" where
  "dispatch getRPY s (Scan msg) =
     (case scan_callback s msg of
        (Some e, s') \<Rightarrow> (Terminated e, [])
      | (None, s') \<Rightarrow> (Alive s', []))"
| "dispatch getRPY s (Odom msg) = (Alive (fst (odom_callback getRPY s msg)), [])"
| "dispatch getRPY s Timer = (case update_callback s of (s', out) \<Rightarrow> (Alive s', out))"

text \<open>The process after the events, and what each event published.\<close>

fun spin ::
  "(quaternion \<Rightarrow> real \<times> real \<times> real) \<Rightarrow> process \<Rightarrow> event list \<Rightarrow> process \<times> Twist list list" where
  "spin getRPY p [] = (p, [])"
| "spin getRPY (Terminated e) (ev # evs) =
     (case spin getRPY (Terminated e) evs of (p', outs) \<Rightarrow> (p', [] # outs))"
| "spin getRPY (Alive s) (ev # evs) =
     (case dispatch getRPY s ev of (p, out) \<Rightarrow>
        (case spin getRPY p evs of (p', outs) \<Rightarrow> (p', out # outs)))"

text \<open>
  A stand-in for \<^verbatim>\<open>getRPY\<close> in concrete runs (the theorems hold for every function in
  its place): the vector part of the quaternion, so that orientations that differ give
  a different \<open>robot_pose\<close>.
\<close>

definition vector_part :: "quaternion \<Rightarrow> real \<times> real \<times> real" where
  "vector_part q = (case q of (x, y, z, w) \<Rightarrow> (x, y, z))"

text \<open>
  A stream of pose updates: the node after it, and what each update wrote to
  \<^verbatim>\<open>stderr\<close>.
\<close>

fun odom_stream ::
  "(quaternion \<Rightarrow> real \<times> real \<times> real) \<Rightarrow> WallFollower \<Rightarrow> Odometry list
     \<Rightarrow> WallFollower \<times> string list list" where
  "odom_stream getRPY s [] = (s, [])"
| "odom_stream getRPY s (msg # msgs) =
     (case odom_callback getRPY s msg of (s', err) \<Rightarrow>
        (case odom_stream getRPY s' msgs of (s'', errs) \<Rightarrow> (s'', err # errs)))"

subsection \<open>Executions that differ in orientation only\<close>

text \<open>An event with the orientation of a pose update blanked.\<close>

fun forget_orientation :: "event \<Rightarrow> event" where
  "forget_orientation (Odom msg) = Odom (msg\<lparr>orientation := (0, 0, 0, 1)\<rparr>)"
| "forget_orientation (Scan msg) = Scan msg"
| "forget_orientation Timer = Timer"

subsection \<open>The decision policy as the specification words it\<close>

text \<open>
  The rule ladder of the specification, on the pulse flag and the twelve clearances
  (front 0, front-left 1, left-front 2, front-right 11): the unscaled command of the
  first rule that matches.
\<close>

definition spec_rule_ladder :: "bool \<Rightarrow> real list \<Rightarrow> real \<times> real" where
  "spec_rule_ladder pulse c =
     (if pulse then (0, 0)
      else if c ! 2 > 0.9 then (0.2, 1.5)
      else if c ! 0 < 0.7 then (0.0, - 1.5)
      else if c ! 1 < 0.6 then (0.3, - 1.5)
      else if c ! 11 < 0.6 then (0.3, 1.5)
      else if c ! 2 > 0.6 then (0.3, 1.5)
      else (0.3, 0.0))"

subsection \<open>The sector clearances as the specification words them\<close>

text \<open>
  The sample indices of the beam of sector \<open>i\<close>: ten degrees either side of the bearing
  \<open>30 * i\<close>, the forward beam wrapping from 350..359 to 0..9. The clearance of a sector is
  the least of \<^verbatim>\<open>range_max\<close> and the samples of its beam.
\<close>

definition spec_beam :: "nat \<Rightarrow> nat set" where
  "spec_beam i = (if i = 0 then {350..<360} \<union> {0..<10} else {30 * i - 10..<30 * i + 10})"

definition spec_clearance :: "LaserScan \<Rightarrow> nat \<Rightarrow> real" where
  "spec_clearance msg i = Min (insert (range_max msg) ((!) (ranges msg) ` spec_beam i))"

section \<open>Properties\<close>

subsection \<open>Auxiliary facts\<close>

lemmas bearing_defs = FRONT_def FRONT_LEFT_def LEFT_FRONT_def FRONT_RIGHT_def

lemma update_velocity_ladder:
  "update_velocity s =
     update_cmd_vel (fst (spec_rule_ladder (near_start s) (scan_data s)))
                    (snd (spec_rule_ladder (near_start s) (scan_data s))) (factor s)"
  by (simp add: update_velocity_def spec_rule_ladder_def bearing_defs)

lemma sint_increment:
  assumes "sint (w :: 32 word) < 2147483647"
  shows "sint (w + 1) = sint w + 1"
proof -
  have lo: "- (2 ^ 31) \<le> sint w"
    using sint_ge [of w] by simp
  have "sint (w + 1) = signed_take_bit 31 (sint w + 1)"
    by (simp add: sint_word_ariths)
  also have "\<dots> = sint w + 1"
    using lo assms by (intro signed_take_bit_int_eq_self) simp_all
  finally show ?thesis .
qed

subsection \<open>The scan loops\<close>

lemma closest_loop_ok:
  "hi \<le> length v \<Longrightarrow>
   closest_loop v lo hi c = Inr (Min (insert c ((!) v ` {lo..<hi})))"
proof (induction v lo hi c rule: closest_loop.induct)
  case (1 v angle hi closest)
  show ?case
  proof (cases "angle < hi")
    case False
    then show ?thesis by (simp add: closest_loop.simps)
  next
    case True
    with "1.prems" have at: "vector_at v angle = Inr (v ! angle)"
      by (simp add: vector_at_def)
    have split: "{angle..<hi} = insert angle {angle + 1..<hi}"
      using True by auto
    have "closest_loop v angle hi closest =
            closest_loop v (angle + 1) hi (if v ! angle < closest then v ! angle else closest)"
      using True at by (subst closest_loop.simps) simp
    also have "\<dots> = Inr (Min (insert (if v ! angle < closest then v ! angle else closest)
                              ((!) v ` {angle + 1..<hi})))"
      using "1.IH" [OF True at] "1.prems" by simp
    also have "Min (insert (if v ! angle < closest then v ! angle else closest)
                              ((!) v ` {angle + 1..<hi}))
             = Min (insert closest ((!) v ` {angle..<hi}))"
    proof -
      have "Min (insert closest ((!) v ` {angle..<hi}))
            = Min (insert closest (insert (v ! angle) ((!) v ` {angle + 1..<hi})))"
        by (simp add: split)
      also have "\<dots> = min closest (Min (insert (v ! angle) ((!) v ` {angle + 1..<hi})))"
        by (rule Min_insert) simp_all
      also have "\<dots> = Min (insert (min closest (v ! angle)) ((!) v ` {angle + 1..<hi}))"
        by (cases "(!) v ` {angle + 1..<hi} = {}") (simp_all add: min.assoc)
      also have "min closest (v ! angle) = (if v ! angle < closest then v ! angle else closest)"
        by (simp add: min_def)
      finally show ?thesis by simp
    qed
    finally show ?thesis .
  qed
qed

lemma closest_loop_short:
  "lo < hi \<Longrightarrow> length v < hi \<Longrightarrow>
   closest_loop v lo hi c = Inl (out_of_range (max lo (length v)))"
proof (induction v lo hi c rule: closest_loop.induct)
  case (1 v angle hi closest)
  show ?case
  proof (cases "angle < length v")
    case False
    then show ?thesis
      using "1.prems" by (subst closest_loop.simps) (simp add: vector_at_def max_def)
  next
    case True
    then have at: "vector_at v angle = Inr (v ! angle)"
      by (simp add: vector_at_def)
    have "closest_loop v angle hi closest =
            closest_loop v (angle + 1) hi (if v ! angle < closest then v ! angle else closest)"
      using "1.prems" at by (subst closest_loop.simps) simp
    also have "\<dots> = Inl (out_of_range (max (angle + 1) (length v)))"
      using "1.IH" [OF "1.prems"(1) at] "1.prems" True by simp
    finally show ?thesis using True by (simp add: max_def)
  qed
qed


lemma scan_angle_eq: "scan_angle = map (\<lambda>i. 30 * i) [0..<12]"
  by (simp add: scan_angle_def upt_rec)

lemma scan_angle_nth: "i < 12 \<Longrightarrow> scan_angle ! i = 30 * i"
  by (simp add: scan_angle_eq del: upt_Suc)

lemma sector_loop_ok:
  "1 \<le> i \<Longrightarrow> i \<le> 12 \<Longrightarrow> 360 \<le> length (ranges msg) \<Longrightarrow> length (scan_data s) = 12 \<Longrightarrow>
   sector_loop msg i s
     = (None, s\<lparr>scan_data := take i (scan_data s) @ map (spec_clearance msg) [i..<12]\<rparr>)"
proof (induction msg i s rule: sector_loop.induct)
  case (1 msg i s)
  show ?case
  proof (cases "i < 12")
    case False
    with "1.prems" have "i = 12" by simp
    then show ?thesis
      using "1.prems" by (subst sector_loop.simps) simp
  next
    case True
    let ?c = "spec_clearance msg i"
    have cl: "closest_loop (ranges msg) (scan_angle ! i - BEAM_WIDTH) (scan_angle ! i + BEAM_WIDTH)
                (range_max msg) = Inr ?c"
      using True "1.prems"
      by (simp add: closest_loop_ok scan_angle_nth BEAM_WIDTH_def spec_clearance_def spec_beam_def)
    let ?s = "s\<lparr>scan_data := (scan_data s)[i := ?c]\<rparr>"
    have "sector_loop msg i s = sector_loop msg (i + 1) ?s"
      using True cl by (subst sector_loop.simps) simp
    also have "\<dots> = (None, ?s\<lparr>scan_data := take (i + 1) (scan_data ?s)
                              @ map (spec_clearance msg) [i + 1..<12]\<rparr>)"
      using "1.IH" [OF True cl] True "1.prems" by simp
    also have "take (i + 1) (scan_data ?s) @ map (spec_clearance msg) [i + 1..<12]
               = take i (scan_data s) @ map (spec_clearance msg) [i..<12]"
      using True "1.prems" by (simp add: take_Suc_conv_app_nth upt_conv_Cons del: upt_Suc)
    finally show ?thesis by simp
  qed
qed

lemma scan_callback_ok:
  assumes "360 \<le> length (ranges msg)" and "length (scan_data s) = 12"
  shows "scan_callback s msg
     = (None, s\<lparr>initial_scan := True, new_scan_data := True,
                 scan_data := map (spec_clearance msg) [0..<12]\<rparr>)"
proof -
  let ?s2 = "s\<lparr>initial_scan := True, new_scan_data := True\<rparr>"
  define c1 where "c1 = Min (insert (range_max msg) ((!) (ranges msg) ` {350..<360}))"
  have s1: "(if \<not> initial_scan s then s\<lparr>initial_scan := True\<rparr> else s) = s\<lparr>initial_scan := True\<rparr>"
    by simp
  have l1: "closest_loop (ranges msg) (360 - BEAM_WIDTH) 360 (range_max msg) = Inr c1"
    using assms by (simp add: closest_loop_ok BEAM_WIDTH_def c1_def)
  have l2: "closest_loop (ranges msg) 0 BEAM_WIDTH c1 = Inr (spec_clearance msg 0)"
  proof -
    have "Min (insert c1 ((!) (ranges msg) ` {0..<10}))
          = Min (insert (range_max msg) ((!) (ranges msg) ` {350..<360}) \<union> (!) (ranges msg) ` {0..<10})"
      unfolding c1_def by (subst Min_Un) (simp_all add: min.commute)
    then show ?thesis
      using assms by (simp add: closest_loop_ok BEAM_WIDTH_def spec_clearance_def spec_beam_def image_Un)
  qed
  let ?s3 = "?s2\<lparr>scan_data := (scan_data ?s2)[0 := spec_clearance msg 0]\<rparr>"
  have "scan_callback s msg = sector_loop msg 1 ?s3"
    by (simp add: scan_callback_def Let_def s1 l1 l2)
  also have "\<dots> = (None, ?s3\<lparr>scan_data := take 1 (scan_data ?s3) @ map (spec_clearance msg) [1..<12]\<rparr>)"
    using assms by (intro sector_loop_ok) simp_all
  also have "take 1 (scan_data ?s3) @ map (spec_clearance msg) [1..<12] = map (spec_clearance msg) [0..<12]"
    using assms by (simp add: take_Suc_conv_app_nth upt_conv_Cons [of 0] del: upt_Suc)
  finally show ?thesis by simp
qed

lemma scan_callback_short:
  assumes "length (ranges msg) < 360"
  shows "scan_callback s msg
     = (Some (out_of_range (max 350 (length (ranges msg)))),
        s\<lparr>initial_scan := True, new_scan_data := True\<rparr>)"
proof -
  have s1: "(if \<not> initial_scan s then s\<lparr>initial_scan := True\<rparr> else s) = s\<lparr>initial_scan := True\<rparr>"
    by simp
  have "closest_loop (ranges msg) (360 - BEAM_WIDTH) 360 (range_max msg)
        = Inl (out_of_range (max 350 (length (ranges msg))))"
    using assms closest_loop_short [of 350 360 "ranges msg" "range_max msg"]
    by (simp add: BEAM_WIDTH_def)
  then show ?thesis
    by (simp add: scan_callback_def Let_def s1)
qed


lemma beam_in_range: "i < 12 \<Longrightarrow> k \<in> spec_beam i \<Longrightarrow> k < 360"
  by (auto simp: spec_beam_def split: if_splits)

lemma beam_finite: "finite (spec_beam i)"
  by (simp add: spec_beam_def)

lemma clearance_le: "spec_clearance msg i \<le> range_max msg"
  by (simp add: spec_clearance_def beam_finite)

lemma clearance_ge:
  assumes "i < 12" and "360 \<le> length (ranges msg)"
    and "\<forall>r\<in>set (ranges msg). b \<le> r" and "b \<le> range_max msg"
  shows "b \<le> spec_clearance msg i"
proof -
  have "b \<le> ranges msg ! k" if "k \<in> spec_beam i" for k
  proof -
    from that assms(1,2) have "k < length (ranges msg)"
      using beam_in_range [of i k] by simp
    then show ?thesis using assms(3) by simp
  qed
  then show ?thesis
    using assms(4) by (simp add: spec_clearance_def beam_finite)
qed

lemma clearance_at:
  assumes "k \<in> spec_beam i" and "\<forall>j\<in>spec_beam i. ranges msg ! k \<le> ranges msg ! j"
  shows "spec_clearance msg i = min (range_max msg) (ranges msg ! k)"
proof -
  have "Min ((!) (ranges msg) ` spec_beam i) = ranges msg ! k"
    using assms by (intro Min_eqI) (auto simp: beam_finite)
  moreover have "(!) (ranges msg) ` spec_beam i \<noteq> {}"
    using assms(1) by auto
  ultimately show ?thesis
    by (simp add: spec_clearance_def beam_finite)
qed

lemma spin_Terminated: "spin g (Terminated e) evs = (Terminated e, replicate (length evs) [])"
  by (induction evs) simp_all

lemma clearance_const:
  assumes "i < 12" and "360 \<le> length (ranges msg)" and "\<forall>r\<in>set (ranges msg). range_max msg \<le> r"
  shows "spec_clearance msg i = range_max msg"
  using clearance_le [of msg i] clearance_ge [OF assms(1,2,3)] by simp

subsection \<open>The decision policy\<close>

text \<open>
  C4. For every clearance array and pulse flag, the command that \<open>update_velocity\<close>
  publishes is the command of the first matching rule of the ladder, read top to bottom,
  scaled by the staleness factor: pulse gives (0, 0); else left-front > 0.9 gives
  (0.2, 1.5); else front < 0.7 gives (0.0, -1.5); else front-left < 0.6 gives (0.3, -1.5);
  else front-right < 0.6 gives (0.3, 1.5); else left-front > 0.6 gives (0.3, 1.5); else
  (0.3, 0.0). With left-front 1.0 and front 0.5, where rules 2 and 3 both match, and
  factor 1, the command is rule 2's (0.2, 1.5).
\<close>

theorem C4_rule_ladder_first_match:
  "update_velocity s =
     update_cmd_vel (fst (spec_rule_ladder (near_start s) (scan_data s)))
                    (snd (spec_rule_ladder (near_start s) (scan_data s))) (factor s)
   \<and> spec_rule_ladder pulse c =
       (if pulse then (0, 0)
        else if c ! LEFT_FRONT > 0.9 then (0.2, 1.5)
        else if c ! FRONT < 0.7 then (0.0, - 1.5)
        else if c ! FRONT_LEFT < 0.6 then (0.3, - 1.5)
        else if c ! FRONT_RIGHT < 0.6 then (0.3, 1.5)
        else if c ! LEFT_FRONT > 0.6 then (0.3, 1.5)
        else (0.3, 0.0))
   \<and> update_velocity (s\<lparr>near_start := False, since_new_scan := 0,
          scan_data := [0.5, 1, 1.0, 1, 1, 1, 1, 1, 1, 1, 1, 1]\<rparr>)
       = [\<lparr>linear_x = 0.2, angular_z = 1.5\<rparr>]"
  by (simp add: update_velocity_def spec_rule_ladder_def update_cmd_vel_def factor_def pow_def
      bearing_defs)

subsection \<open>The end-to-end scenario\<close>

text \<open>
  C3, as the code has it. With all twelve clearances 1.0 and no near-start flag, the
  left-front clearance exceeds 0.9, so rule 2 is taken, not the default: with staleness
  counter 0 the command is (0.2, 1.5), and with counter 1 (factor 0.8) it is (0.16, 1.2).
  So does a tick that consumes a fresh scan, and the tick after it when no scan arrives
  in between.
\<close>

theorem C3_all_clear_takes_rule_2:
  assumes "scan_data s = replicate 12 1" and "\<not> near_start s"
  shows "(since_new_scan s = 0 \<longrightarrow> update_velocity s = [\<lparr>linear_x = 0.2, angular_z = 1.5\<rparr>])
       \<and> (since_new_scan s = 1 \<longrightarrow> update_velocity s = [\<lparr>linear_x = 0.16, angular_z = 1.2\<rparr>])
       \<and> (initial_scan s \<and> new_scan_data s \<longrightarrow>
            snd (update_callback s) = [\<lparr>linear_x = 0.2, angular_z = 1.5\<rparr>]
          \<and> snd (update_callback (fst (update_callback s)))
              = [\<lparr>linear_x = 0.16, angular_z = 1.2\<rparr>])"
  using assms
  by (simp add: update_callback_def update_velocity_def update_cmd_vel_def factor_def pow_def
      BASE_FACTOR_def bearing_defs)

theorem C3_witness:
  "update_velocity ((WallFollower_new 0 0)\<lparr>scan_data := replicate 12 1\<rparr>)
     = [\<lparr>linear_x = 0.2, angular_z = 1.5\<rparr>]
   \<and> update_velocity ((WallFollower_new 0 0)\<lparr>scan_data := replicate 12 1, since_new_scan := 1\<rparr>)
     = [\<lparr>linear_x = 0.16, angular_z = 1.2\<rparr>]
   \<and> snd (update_callback (fst (update_callback
        ((WallFollower_new 0 0)\<lparr>scan_data := replicate 12 1, initial_scan := True,
            new_scan_data := True\<rparr>))))
     = [\<lparr>linear_x = 0.16, angular_z = 1.2\<rparr>]"
  using C3_all_clear_takes_rule_2 [of "(WallFollower_new 0 0)\<lparr>scan_data := replicate 12 1\<rparr>"]
    C3_all_clear_takes_rule_2
      [of "(WallFollower_new 0 0)\<lparr>scan_data := replicate 12 1, since_new_scan := 1\<rparr>"]
    C3_all_clear_takes_rule_2
      [of "(WallFollower_new 0 0)\<lparr>scan_data := replicate 12 1, initial_scan := True,
             new_scan_data := True\<rparr>"]
  by (simp add: WallFollower_new_def)

text \<open>
  The commands (0.3, 0.0) and (0.24, 0.0) are not what the node publishes for these
  clearances, at counter 0 and at counter 1.
\<close>

theorem C3_counterexample:
  "update_velocity ((WallFollower_new 0 0)\<lparr>scan_data := replicate 12 1\<rparr>)
     \<noteq> [\<lparr>linear_x = 0.3, angular_z = 0.0\<rparr>]
   \<and> update_velocity ((WallFollower_new 0 0)\<lparr>scan_data := replicate 12 1, since_new_scan := 1\<rparr>)
     \<noteq> [\<lparr>linear_x = 0.24, angular_z = 0.0\<rparr>]"
  by (simp add: update_velocity_def update_cmd_vel_def factor_def pow_def WallFollower_new_def
      BASE_FACTOR_def bearing_defs)

subsection \<open>Scans that are too short\<close>

text \<open>
  C2, as the code has it. For every scan with fewer than 360 samples, \<open>scan_callback\<close>
  throws \<^verbatim>\<open>std::out_of_range\<close>, at index 350 or at the first index past the end, before it
  writes any entry of \<^verbatim>\<open>scan_data_\<close>: every cached clearance and the staleness counter
  keep their prior values. The flags \<open>initial_scan\<close> and \<open>new_scan_data\<close> are assigned
  before the first range is read, so both are set when the exception leaves the
  callback. Nothing catches the exception: the process ends, no later tick runs, and
  nothing is published after it.
\<close>

theorem C2_short_scan_throws:
  assumes "length (ranges msg) < 360"
  shows "scan_callback s msg
           = (Some (out_of_range (max 350 (length (ranges msg)))),
              s\<lparr>initial_scan := True, new_scan_data := True\<rparr>)
       \<and> scan_data (snd (scan_callback s msg)) = scan_data s
       \<and> since_new_scan (snd (scan_callback s msg)) = since_new_scan s
       \<and> initial_scan (snd (scan_callback s msg))
       \<and> new_scan_data (snd (scan_callback s msg))
       \<and> spin getRPY (Alive s) (Scan msg # evs)
           = (Terminated (out_of_range (max 350 (length (ranges msg)))),
              replicate (Suc (length evs)) [])"
  using assms by (simp add: scan_callback_short spin_Terminated)

theorem C2_witness:
  "scan_callback (WallFollower_new 0 0) \<lparr>range_max = 3.5, ranges = replicate 359 1\<rparr>
     = (Some (out_of_range 359), (WallFollower_new 0 0)\<lparr>initial_scan := True, new_scan_data := True\<rparr>)
   \<and> scan_data (snd (scan_callback (WallFollower_new 0 0)
         \<lparr>range_max = 3.5, ranges = replicate 359 1\<rparr>)) = replicate 12 0
   \<and> spin vector_part (Alive (WallFollower_new 0 0))
        [Scan \<lparr>range_max = 3.5, ranges = replicate 359 1\<rparr>, Timer, Timer]
       = (Terminated (out_of_range 359), [ [], [], []])"
  using C2_short_scan_throws [of "\<lparr>range_max = 3.5, ranges = replicate 359 1\<rparr>"
      "WallFollower_new 0 0" vector_part "[Timer, Timer]"]
  by (simp add: WallFollower_new_def)

text \<open>
  The fresh-scan flag is set by a scan of 359 samples on a node whose flag was clear.
\<close>

theorem C2_counterexample:
  "length (ranges \<lparr>range_max = 3.5, ranges = replicate 359 1\<rparr>) < 360
   \<and> \<not> new_scan_data ((WallFollower_new 0 0)\<lparr>initial_scan := True\<rparr>)
   \<and> new_scan_data (snd (scan_callback ((WallFollower_new 0 0)\<lparr>initial_scan := True\<rparr>)
        \<lparr>range_max = 3.5, ranges = replicate 359 1\<rparr>))"
  by (simp add: scan_callback_short WallFollower_new_def)

subsection \<open>The forward sector\<close>

text \<open>
  C7. For every scan of at least 360 samples, \<open>scan_callback\<close> returns normally and the
  forward clearance (sector 0) is the least of \<^verbatim>\<open>range_max\<close> and the samples at indices
  350 to 359 and 0 to 9. If a smallest sample of the whole scan sits at an index of that
  window (index 0, say, or 359 or 9), the forward clearance is that sample, capped by
  \<^verbatim>\<open>range_max\<close>.
\<close>

theorem C7_forward_clearance_wraps:
  assumes "360 \<le> length (ranges msg)" and "length (scan_data s) = 12"
  shows "fst (scan_callback s msg) = None
       \<and> scan_data (snd (scan_callback s msg)) ! FRONT
           = Min (insert (range_max msg) ((!) (ranges msg) ` ({350..<360} \<union> {0..<10})))
       \<and> (\<forall>k\<in>{350..<360} \<union> {0..<10}.
            (\<forall>j<length (ranges msg). ranges msg ! k \<le> ranges msg ! j) \<longrightarrow>
            scan_data (snd (scan_callback s msg)) ! FRONT = min (range_max msg) (ranges msg ! k))"
proof -
  have front: "scan_data (snd (scan_callback s msg)) ! FRONT = spec_clearance msg 0"
    using assms by (simp add: scan_callback_ok FRONT_def upt_conv_Cons [of 0] del: upt_Suc)
  have b0: "spec_beam 0 = {350..<360} \<union> {0..<10}"
    by (simp add: spec_beam_def)
  have "spec_clearance msg 0 = min (range_max msg) (ranges msg ! k)"
    if "k \<in> {350..<360} \<union> {0..<10}" and "\<forall>j<length (ranges msg). ranges msg ! k \<le> ranges msg ! j"
    for k
  proof (rule clearance_at)
    show "k \<in> spec_beam 0" using that(1) by (simp add: b0)
    show "\<forall>j\<in>spec_beam 0. ranges msg ! k \<le> ranges msg ! j"
      using that(2) assms(1) beam_in_range [of 0] by fastforce
  qed
  then show ?thesis
    using assms front by (simp add: scan_callback_ok spec_clearance_def b0)
qed

theorem C7_witness:
  "scan_data (snd (scan_callback (WallFollower_new 0 0)
      \<lparr>range_max = 3.5, ranges = 0.25 # replicate 359 1\<rparr>)) ! FRONT = 0.25
   \<and> scan_data (snd (scan_callback (WallFollower_new 0 0)
      \<lparr>range_max = 3.5, ranges = replicate 359 1 @ [0.25]\<rparr>)) ! FRONT = 0.25"
proof -
  let ?a = "\<lparr>range_max = 3.5, ranges = 0.25 # replicate 359 1\<rparr>"
  let ?b = "\<lparr>range_max = 3.5, ranges = replicate 359 1 @ [0.25]\<rparr>"
  have len: "360 \<le> length (ranges ?a)" "360 \<le> length (ranges ?b)"
    "length (scan_data (WallFollower_new 0 0)) = 12"
    by (simp_all add: WallFollower_new_def)
  have ka: "(0::nat) \<in> {350..<360} \<union> {0..<10}" and kb: "(359::nat) \<in> {350..<360} \<union> {0..<10}"
    by simp_all
  have ma: "\<forall>j<length (ranges ?a). ranges ?a ! 0 \<le> ranges ?a ! j"
    by (simp add: nth_Cons')
  have mb: "\<forall>j<length (ranges ?b). ranges ?b ! 359 \<le> ranges ?b ! j"
    by (simp add: nth_append)
  from C7_forward_clearance_wraps [OF len(1) len(3)] ka ma
  have "scan_data (snd (scan_callback (WallFollower_new 0 0) ?a)) ! FRONT
          = min (range_max ?a) (ranges ?a ! 0)"
    by blast
  moreover from C7_forward_clearance_wraps [OF len(2) len(3)] kb mb
  have "scan_data (snd (scan_callback (WallFollower_new 0 0) ?b)) ! FRONT
          = min (range_max ?b) (ranges ?b ! 359)"
    by blast
  ultimately show ?thesis
    by (simp add: nth_append)
qed

subsection \<open>The range of the clearances\<close>

text \<open>
  C8, as the code has it. For every scan of at least 360 samples whose samples are
  non-negative and whose \<^verbatim>\<open>range_max\<close> is non-negative, \<open>scan_callback\<close> returns normally
  and each of the 12 cached clearances lies in the closed interval from 0 to
  \<^verbatim>\<open>range_max\<close>; if every sample equals \<^verbatim>\<open>range_max\<close>, so does every clearance.
\<close>

theorem C8_clearances_within_range:
  assumes "360 \<le> length (ranges msg)" and "\<forall>r\<in>set (ranges msg). 0 \<le> r"
    and "0 \<le> range_max msg" and "length (scan_data s) = 12"
  shows "fst (scan_callback s msg) = None
       \<and> length (scan_data (snd (scan_callback s msg))) = 12
       \<and> (\<forall>i<12. 0 \<le> scan_data (snd (scan_callback s msg)) ! i
                 \<and> scan_data (snd (scan_callback s msg)) ! i \<le> range_max msg)
       \<and> ((\<forall>r\<in>set (ranges msg). r = range_max msg) \<longrightarrow>
            scan_data (snd (scan_callback s msg)) = replicate 12 (range_max msg))"
proof -
  have sd: "scan_data (snd (scan_callback s msg)) = map (spec_clearance msg) [0..<12]"
    and ok: "fst (scan_callback s msg) = None"
    using assms by (simp_all add: scan_callback_ok)
  have nth: "scan_data (snd (scan_callback s msg)) ! i = spec_clearance msg i" if "i < 12" for i
    using that unfolding sd by (simp del: upt_Suc)
  have bounds: "0 \<le> spec_clearance msg i \<and> spec_clearance msg i \<le> range_max msg" if "i < 12" for i
    using that assms clearance_le [of msg i] clearance_ge [of i msg 0] by simp
  have const: "map (spec_clearance msg) [0..<12] = replicate 12 (range_max msg)"
    if "\<forall>r\<in>set (ranges msg). r = range_max msg"
  proof (rule nth_equalityI)
    show "length (map (spec_clearance msg) [0..<12]) = length (replicate 12 (range_max msg))"
      by simp
    fix i assume "i < length (map (spec_clearance msg) [0..<12])"
    then have "i < 12" by simp
    then show "map (spec_clearance msg) [0..<12] ! i = replicate 12 (range_max msg) ! i"
      using clearance_const [of i msg] assms(1) that by (simp del: upt_Suc)
  qed
  show ?thesis
    using ok bounds const by (simp add: nth) (simp add: sd)
qed

theorem C8_witness:
  "fst (scan_callback (WallFollower_new 0 0) \<lparr>range_max = 3.5, ranges = replicate 360 3.5\<rparr>) = None
   \<and> 0 \<le> scan_data (snd (scan_callback (WallFollower_new 0 0)
       \<lparr>range_max = 3.5, ranges = replicate 360 3.5\<rparr>)) ! 7
   \<and> scan_data (snd (scan_callback (WallFollower_new 0 0)
       \<lparr>range_max = 3.5, ranges = replicate 360 3.5\<rparr>)) ! 7 \<le> 3.5
   \<and> scan_data (snd (scan_callback (WallFollower_new 0 0)
       \<lparr>range_max = 3.5, ranges = replicate 360 3.5\<rparr>)) = replicate 12 3.5"
  using C8_clearances_within_range [of "\<lparr>range_max = 3.5, ranges = replicate 360 3.5\<rparr>"
      "WallFollower_new 0 0"]
  by (simp add: WallFollower_new_def)

text \<open>
  With \<^verbatim>\<open>range_max = -1\<close> and 360 samples all 0, the forward clearance is -1: it is not in
  the interval from 0 to \<^verbatim>\<open>range_max\<close>, though every sample is non-negative.
\<close>

theorem C8_counterexample:
  "360 \<le> length (ranges \<lparr>range_max = - 1, ranges = replicate 360 0\<rparr>)
   \<and> set (ranges \<lparr>range_max = - 1, ranges = replicate 360 0\<rparr>) \<subseteq> {0..}
   \<and> fst (scan_callback (WallFollower_new 0 0) \<lparr>range_max = - 1, ranges = replicate 360 0\<rparr>) = None
   \<and> scan_data (snd (scan_callback (WallFollower_new 0 0)
        \<lparr>range_max = - 1, ranges = replicate 360 0\<rparr>)) ! FRONT = - 1
   \<and> \<not> (0 \<le> scan_data (snd (scan_callback (WallFollower_new 0 0)
        \<lparr>range_max = - 1, ranges = replicate 360 0\<rparr>)) ! FRONT)"
proof -
  let ?m = "\<lparr>range_max = - 1, ranges = replicate 360 0\<rparr>"
  have "spec_clearance ?m 0 = range_max ?m"
    by (rule clearance_const) simp_all
  then show ?thesis
    by (simp add: scan_callback_ok WallFollower_new_def FRONT_def upt_conv_Cons [of 0] del: upt_Suc)
qed

subsection \<open>The start-proximity tracker\<close>

lemma odom_stream_near:
  assumes "\<not> first s" and "start_moving s" and "\<not> near_start s"
    and "\<forall>m\<in>set msgs. \<bar>position_x m - start_x s\<bar> \<le> 0.2 \<and> \<bar>position_y m - start_y s\<bar> \<le> 0.2"
  shows "snd (odom_stream getRPY s msgs) = replicate (length msgs) []
       \<and> \<not> near_start (fst (odom_stream getRPY s msgs))"
  using assms
proof (induction msgs arbitrary: s)
  case Nil
  then show ?case by simp
next
  case (Cons m msgs)
  obtain roll pitch yaw where rpy: "getRPY (orientation m) = (roll, pitch, yaw)"
    by (cases "getRPY (orientation m)") auto
  have "\<bar>position_x m - start_x s\<bar> \<le> 0.2" and "\<bar>position_y m - start_y s\<bar> \<le> 0.2"
    using Cons.prems(4) by simp_all
  then have stay: "\<not> (\<bar>position_x m - start_x s\<bar> > START_RANGE \<or> \<bar>position_y m - start_y s\<bar> > START_RANGE)"
    unfolding START_RANGE_def by linarith
  have step: "odom_callback getRPY s m = (s\<lparr>robot_pose := yaw\<rparr>, [])"
    using Cons.prems(1,2) stay by (simp add: odom_callback_def rpy Let_def)
  have "snd (odom_stream getRPY (s\<lparr>robot_pose := yaw\<rparr>) msgs) = replicate (length msgs) []
       \<and> \<not> near_start (fst (odom_stream getRPY (s\<lparr>robot_pose := yaw\<rparr>) msgs))"
    using Cons.prems by (intro Cons.IH) simp_all
  then show ?case
    by (cases "odom_stream getRPY (s\<lparr>robot_pose := yaw\<rparr>) msgs") (simp add: step)
qed

text \<open>
  C6. On a new node, the pose sequence (0,0), (1,1), (0.05,0.05) makes \<open>odom_callback\<close>
  report the near start exactly once, at the third sample, whatever the orientations:
  the first two updates write nothing and leave \<open>near_start\<close> clear, the third writes the
  line and sets the flag. For every pose sequence in which max(|x - x0|, |y - y0|) never
  exceeds 0.2, (x0, y0) being the first sample, no update reports the near start and
  the flag stays clear.
\<close>

theorem C6_near_start_after_departure:
  "snd (odom_stream getRPY (WallFollower_new sx sy)
          [\<lparr>position_x = 0, position_y = 0, orientation = q0\<rparr>,
           \<lparr>position_x = 1, position_y = 1, orientation = q1\<rparr>,
           \<lparr>position_x = 0.05, position_y = 0.05, orientation = q2\<rparr>])
     = [ [], [], [''Near start!!'']]
   \<and> \<not> near_start (fst (odom_stream getRPY (WallFollower_new sx sy)
          [\<lparr>position_x = 0, position_y = 0, orientation = q0\<rparr>,
           \<lparr>position_x = 1, position_y = 1, orientation = q1\<rparr>]))
   \<and> near_start (fst (odom_stream getRPY (WallFollower_new sx sy)
          [\<lparr>position_x = 0, position_y = 0, orientation = q0\<rparr>,
           \<lparr>position_x = 1, position_y = 1, orientation = q1\<rparr>,
           \<lparr>position_x = 0.05, position_y = 0.05, orientation = q2\<rparr>]))
   \<and> ((\<forall>m\<in>set msgs. max \<bar>position_x m - position_x m0\<bar> \<bar>position_y m - position_y m0\<bar> \<le> 0.2)
        \<longrightarrow> snd (odom_stream getRPY (WallFollower_new sx sy) (m0 # msgs))
              = replicate (Suc (length msgs)) []
          \<and> \<not> near_start (fst (odom_stream getRPY (WallFollower_new sx sy) (m0 # msgs))))"
proof -
  obtain r0 p0 y0 where g0: "getRPY q0 = (r0, p0, y0)" by (cases "getRPY q0") auto
  obtain r1 p1 y1 where g1: "getRPY q1 = (r1, p1, y1)" by (cases "getRPY q1") auto
  obtain r2 p2 y2 where g2: "getRPY q2 = (r2, p2, y2)" by (cases "getRPY q2") auto
  have run: "odom_stream getRPY (WallFollower_new sx sy)
          [\<lparr>position_x = 0, position_y = 0, orientation = q0\<rparr>,
           \<lparr>position_x = 1, position_y = 1, orientation = q1\<rparr>,
           \<lparr>position_x = 0.05, position_y = 0.05, orientation = q2\<rparr>]
     = ((WallFollower_new sx sy)\<lparr>robot_pose := y2, start_x := 0, start_y := 0,
           near_start := True\<rparr>, [ [], [], [''Near start!!'']])"
    by (simp add: odom_callback_def WallFollower_new_def START_RANGE_def g0 g1 g2)
  have run2: "\<not> near_start (fst (odom_stream getRPY (WallFollower_new sx sy)
          [\<lparr>position_x = 0, position_y = 0, orientation = q0\<rparr>,
           \<lparr>position_x = 1, position_y = 1, orientation = q1\<rparr>]))"
    by (simp add: odom_callback_def WallFollower_new_def START_RANGE_def g0 g1)
  have quiet: "snd (odom_stream getRPY (WallFollower_new sx sy) (m0 # msgs))
              = replicate (Suc (length msgs)) []
          \<and> \<not> near_start (fst (odom_stream getRPY (WallFollower_new sx sy) (m0 # msgs)))"
    if h: "\<forall>m\<in>set msgs. max \<bar>position_x m - position_x m0\<bar> \<bar>position_y m - position_y m0\<bar> \<le> 0.2"
  proof -
    obtain r p y where g: "getRPY (orientation m0) = (r, p, y)"
      by (cases "getRPY (orientation m0)") auto
    let ?s = "(WallFollower_new sx sy)\<lparr>robot_pose := y, start_x := position_x m0,
                 start_y := position_y m0, first := False\<rparr>"
    have first: "odom_callback getRPY (WallFollower_new sx sy) m0 = (?s, [])"
      by (simp add: odom_callback_def WallFollower_new_def g)
    have h': "\<forall>m\<in>set msgs. \<bar>position_x m - start_x ?s\<bar> \<le> 0.2 \<and> \<bar>position_y m - start_y ?s\<bar> \<le> 0.2"
    proof -
      have sx: "start_x ?s = position_x m0" and sy: "start_y ?s = position_y m0"
        by simp_all
      show ?thesis
        unfolding sx sy using h by (simp only: max.bounded_iff)
    qed
    have "snd (odom_stream getRPY ?s msgs) = replicate (length msgs) []
       \<and> \<not> near_start (fst (odom_stream getRPY ?s msgs))"
      using h' by (intro odom_stream_near) (simp_all add: WallFollower_new_def)
    then show ?thesis
      by (cases "odom_stream getRPY ?s msgs") (simp add: first)
  qed
  show ?thesis
    using run run2 quiet by simp
qed

theorem C6_witness:
  "snd (odom_stream vector_part (WallFollower_new 0 0)
          [\<lparr>position_x = 0, position_y = 0, orientation = (0, 0, 0, 1)\<rparr>,
           \<lparr>position_x = 0.2, position_y = - 0.2, orientation = (0, 0, 0, 1)\<rparr>,
           \<lparr>position_x = 0.1, position_y = 0.1, orientation = (0, 0, 1, 0)\<rparr>])
     = [ [], [], []]
   \<and> \<not> near_start (fst (odom_stream vector_part (WallFollower_new 0 0)
          [\<lparr>position_x = 0, position_y = 0, orientation = (0, 0, 0, 1)\<rparr>,
           \<lparr>position_x = 0.2, position_y = - 0.2, orientation = (0, 0, 0, 1)\<rparr>,
           \<lparr>position_x = 0.1, position_y = 0.1, orientation = (0, 0, 1, 0)\<rparr>]))"
  using C6_near_start_after_departure [of vector_part 0 0 "(0, 0, 0, 1)" "(0, 0, 0, 1)" "(0, 0, 0, 1)"
      "[\<lparr>position_x = 0.2, position_y = - 0.2, orientation = (0, 0, 0, 1)\<rparr>,
        \<lparr>position_x = 0.1, position_y = 0.1, orientation = (0, 0, 1, 0)\<rparr>]"
      "\<lparr>position_x = 0, position_y = 0, orientation = (0, 0, 0, 1)\<rparr>"]
  by simp


subsection \<open>Facts about the executor\<close>

lemma dispatch_Scan:
  "dispatch g s (Scan msg) =
     ((case fst (scan_callback s msg) of
         Some e \<Rightarrow> Terminated e
       | None \<Rightarrow> Alive (snd (scan_callback s msg))), [])"
  by (simp split: prod.splits option.splits)

lemma dispatch_Odom:
  "dispatch g s (Odom msg) = (Alive (fst (odom_callback g s msg)), [])"
  by simp

lemma dispatch_Timer:
  "dispatch g s Timer = (Alive (fst (update_callback s)), snd (update_callback s))"
  by (simp split: prod.splits)

lemma spin_Alive:
  "spin g (Alive s) (ev # evs) =
     (fst (spin g (fst (dispatch g s ev)) evs),
      snd (dispatch g s ev) # snd (spin g (fst (dispatch g s ev)) evs))"
  by (simp split: prod.splits)

declare dispatch.simps [simp del]
declare spin.simps(2,3) [simp del]

lemma spin_length: "length (snd (spin g p evs)) = length evs"
proof (induction evs arbitrary: p)
  case Nil
  then show ?case by simp
next
  case (Cons ev evs)
  then show ?case
    by (cases p) (simp_all add: spin_Alive spin_Terminated)
qed

lemma spin_nth:
  "k < length evs \<Longrightarrow>
   snd (spin g p evs) ! k =
     (case fst (spin g p (take k evs)) of
        Alive s \<Rightarrow> snd (dispatch g s (evs ! k))
      | Terminated e \<Rightarrow> [])"
proof (induction evs arbitrary: k p)
  case Nil
  then show ?case by simp
next
  case (Cons ev evs)
  show ?case
  proof (cases p)
    case (Terminated e)
    then show ?thesis
      using Cons.prems by (cases k) (simp_all add: spin_Terminated)
  next
    case (Alive s)
    show ?thesis
    proof (cases k)
      case 0
      then show ?thesis using Alive by (simp add: spin_Alive)
    next
      case (Suc j)
      then have "j < length evs" using Cons.prems by simp
      from Cons.IH [OF this, of "fst (dispatch g s ev)"] show ?thesis
        using Alive Suc by (simp add: spin_Alive split: process.splits)
    qed
  qed
qed

lemma update_velocity_length: "length (update_velocity s) = 1"
  by (simp add: update_velocity_ladder update_cmd_vel_def)

lemma update_callback_gate:
  "\<not> initial_scan s \<Longrightarrow> update_callback s = (s, [])"
  "initial_scan s \<Longrightarrow> length (snd (update_callback s)) = 1"
  by (simp_all add: update_callback_def Let_def update_velocity_length)

lemma update_callback_keeps:
  "initial_scan (fst (update_callback s)) = initial_scan s"
  "scan_data (fst (update_callback s)) = scan_data s"
  "near_start (fst (update_callback s)) = near_start s"
  by (simp_all add: update_callback_def Let_def)

lemma odom_callback_keeps:
  "initial_scan (fst (odom_callback g s msg)) = initial_scan s"
  "scan_data (fst (odom_callback g s msg)) = scan_data s"
  "near_start s \<Longrightarrow> near_start (fst (odom_callback g s msg))"
  by (simp_all add: odom_callback_def Let_def split: prod.splits)

lemma dispatch_length: "length (snd (dispatch g s ev)) \<le> 1"
proof (cases ev)
  case (Scan msg)
  then show ?thesis by (simp add: dispatch_Scan)
next
  case (Odom msg)
  then show ?thesis by (simp add: dispatch_Odom)
next
  case Timer
  then show ?thesis
    using update_callback_gate [of s] by (cases "initial_scan s") (simp_all add: dispatch_Timer)
qed

lemma dispatch_not_Timer: "ev \<noteq> Timer \<Longrightarrow> snd (dispatch g s ev) = []"
  by (cases ev) (simp_all add: dispatch_Scan dispatch_Odom)

lemma dispatch_Scan_ok:
  assumes "360 \<le> length (ranges msg)" and "length (scan_data s) = 12"
  shows "dispatch g s (Scan msg)
           = (Alive (s\<lparr>initial_scan := True, new_scan_data := True,
                        scan_data := map (spec_clearance msg) [0..<12]\<rparr>), [])"
  using assms by (simp add: dispatch_Scan scan_callback_ok del: upt_Suc)

lemma spin_before_first_scan:
  assumes "\<forall>ev\<in>set evs. \<forall>m. ev \<noteq> Scan m" and "\<not> initial_scan s"
  shows "\<exists>s'. fst (spin g (Alive s) evs) = Alive s' \<and> \<not> initial_scan s'"
  using assms
proof (induction evs arbitrary: s)
  case Nil
  then show ?case by simp
next
  case (Cons ev evs)
  have "\<exists>s1. fst (dispatch g s ev) = Alive s1 \<and> \<not> initial_scan s1"
  proof (cases ev)
    case (Scan msg)
    with Cons.prems show ?thesis by simp
  next
    case (Odom msg)
    with Cons.prems show ?thesis by (simp add: dispatch_Odom odom_callback_keeps)
  next
    case Timer
    with Cons.prems show ?thesis by (simp add: dispatch_Timer update_callback_keeps)
  qed
  then obtain s1 where s1: "fst (dispatch g s ev) = Alive s1" "\<not> initial_scan s1"
    by blast
  from Cons.IH [of s1] Cons.prems s1 show ?case
    by (simp add: spin_Alive)
qed

lemma spin_after_scans:
  assumes "\<forall>ev\<in>set evs. \<forall>m. ev = Scan m \<longrightarrow> 360 \<le> length (ranges m)"
    and "length (scan_data s) = 12"
  shows "\<exists>s'. fst (spin g (Alive s) evs) = Alive s' \<and> length (scan_data s') = 12
            \<and> (initial_scan s \<or> (\<exists>m. Scan m \<in> set evs) \<longrightarrow> initial_scan s')"
  using assms
proof (induction evs arbitrary: s)
  case Nil
  then show ?case by simp
next
  case (Cons ev evs)
  have "\<exists>s1. fst (dispatch g s ev) = Alive s1 \<and> length (scan_data s1) = 12
            \<and> (initial_scan s \<or> (\<exists>m. ev = Scan m) \<longrightarrow> initial_scan s1)"
  proof (cases ev)
    case (Scan msg)
    with Cons.prems have "360 \<le> length (ranges msg)" by simp
    then show ?thesis
      using Scan Cons.prems(2) by (simp add: dispatch_Scan_ok del: upt_Suc)
  next
    case (Odom msg)
    with Cons.prems show ?thesis by (simp add: dispatch_Odom odom_callback_keeps)
  next
    case Timer
    with Cons.prems show ?thesis by (simp add: dispatch_Timer update_callback_keeps)
  qed
  then obtain s1 where s1: "fst (dispatch g s ev) = Alive s1" "length (scan_data s1) = 12"
    "initial_scan s \<or> (\<exists>m. ev = Scan m) \<longrightarrow> initial_scan s1"
    by blast
  from Cons.prems have "\<forall>ev\<in>set evs. \<forall>m. ev = Scan m \<longrightarrow> 360 \<le> length (ranges m)"
    by simp
  from Cons.IH [OF this s1(2)] obtain s' where
    s': "fst (spin g (Alive s1) evs) = Alive s'" "length (scan_data s') = 12"
      "initial_scan s1 \<or> (\<exists>m. Scan m \<in> set evs) \<longrightarrow> initial_scan s'"
    by blast
  show ?case
    using s1 s' by (auto simp: spin_Alive)
qed


lemma frame_refl: "\<exists>xs. (s :: WallFollower) = s\<lparr>scan_data := xs\<rparr>"
  by (rule exI [of _ "scan_data s"]) simp

lemma sector_loop_frame: "\<exists>xs. snd (sector_loop msg i s) = s\<lparr>scan_data := xs\<rparr>"
proof (induction msg i s rule: sector_loop.induct)
  case (1 msg i s)
  show ?case
  proof (cases "i < 12")
    case False
    have "snd (sector_loop msg i s) = s"
      using False by (subst sector_loop.simps) simp
    then show ?thesis
      using frame_refl [of s] by simp
  next
    case True
    show ?thesis
    proof (cases "closest_loop (ranges msg) (scan_angle ! i - BEAM_WIDTH)
                    (scan_angle ! i + BEAM_WIDTH) (range_max msg)")
      case (Inl e)
      have "snd (sector_loop msg i s) = s"
        using True Inl by (subst sector_loop.simps) simp
      then show ?thesis
        using frame_refl [of s] by simp
    next
      case (Inr c)
      from "1.IH" [OF True Inr] obtain xs where
        "snd (sector_loop msg (i + 1) (s\<lparr>scan_data := (scan_data s)[i := c]\<rparr>))
           = s\<lparr>scan_data := (scan_data s)[i := c]\<rparr>\<lparr>scan_data := xs\<rparr>"
        by blast
      then have "snd (sector_loop msg i s) = s\<lparr>scan_data := xs\<rparr>"
        using True Inr by (subst sector_loop.simps) simp
      then show ?thesis by blast
    qed
  qed
qed

lemma scan_callback_frame:
  "\<exists>xs. snd (scan_callback s msg) = s\<lparr>initial_scan := True, new_scan_data := True, scan_data := xs\<rparr>"
proof -
  let ?s2 = "s\<lparr>initial_scan := True, new_scan_data := True\<rparr>"
  have s1: "(if \<not> initial_scan s then s\<lparr>initial_scan := True\<rparr> else s) = s\<lparr>initial_scan := True\<rparr>"
    by simp
  have same: "\<exists>xs. ?s2 = ?s2\<lparr>scan_data := xs\<rparr>" by (rule frame_refl)
  show ?thesis
  proof (cases "closest_loop (ranges msg) (360 - BEAM_WIDTH) 360 (range_max msg)")
    case (Inl e)
    then have "snd (scan_callback s msg) = ?s2"
      by (simp add: scan_callback_def Let_def s1)
    with same show ?thesis by simp
  next
    case (Inr c)
    show ?thesis
    proof (cases "closest_loop (ranges msg) 0 BEAM_WIDTH c")
      case (Inl e)
      then have "snd (scan_callback s msg) = ?s2"
        using Inr by (simp add: scan_callback_def Let_def s1)
      with same show ?thesis by simp
    next
      case c2: (Inr c')
      obtain xs where "snd (sector_loop msg 1 (?s2\<lparr>scan_data := (scan_data ?s2)[0 := c']\<rparr>))
          = ?s2\<lparr>scan_data := (scan_data ?s2)[0 := c']\<rparr>\<lparr>scan_data := xs\<rparr>"
        using sector_loop_frame by blast
      then have "snd (scan_callback s msg) = ?s2\<lparr>scan_data := xs\<rparr>"
        using Inr c2 by (simp add: scan_callback_def Let_def s1)
      then show ?thesis by auto
    qed
  qed
qed

lemma scan_callback_keeps:
  "initial_scan (snd (scan_callback s msg))"
  "near_start (snd (scan_callback s msg)) = near_start s"
  using scan_callback_frame [of s msg] by auto

lemma dispatch_keeps:
  assumes "dispatch g s ev = (Alive s', out)"
  shows "(initial_scan s \<or> (\<exists>m. ev = Scan m) \<longrightarrow> initial_scan s')
       \<and> (near_start s \<longrightarrow> near_start s')"
proof (cases ev)
  case (Scan msg)
  with assms show ?thesis
    by (auto simp: dispatch_Scan scan_callback_keeps split: option.splits)
next
  case (Odom msg)
  with assms show ?thesis
    by (auto simp: dispatch_Odom odom_callback_keeps)
next
  case Timer
  with assms show ?thesis
    by (auto simp: dispatch_Timer update_callback_keeps)
qed

lemma spin_Terminated_stays:
  "fst (spin g p evs) = Alive s' \<Longrightarrow> \<exists>s. p = Alive s"
  by (cases p) (simp_all add: spin_Terminated)

lemma spin_keeps:
  assumes "fst (spin g (Alive s) evs) = Alive s'"
  shows "(initial_scan s \<or> (\<exists>m. Scan m \<in> set evs) \<longrightarrow> initial_scan s')
       \<and> (near_start s \<longrightarrow> near_start s')"
  using assms
proof (induction evs arbitrary: s)
  case Nil
  then show ?case by simp
next
  case (Cons ev evs)
  from Cons.prems have run: "fst (spin g (fst (dispatch g s ev)) evs) = Alive s'"
    by (simp add: spin_Alive)
  then obtain s1 where s1: "fst (dispatch g s ev) = Alive s1"
    using spin_Terminated_stays by blast
  then have "dispatch g s ev = (Alive s1, snd (dispatch g s ev))"
    by (cases "dispatch g s ev") simp
  from dispatch_keeps [OF this] Cons.IH [of s1] run s1 show ?case
    by auto
qed

lemma spin_short_scan:
  assumes "\<exists>m. Scan m \<in> set evs \<and> length (ranges m) < 360"
  shows "\<exists>e. fst (spin g p evs) = Terminated e"
  using assms
proof (induction evs arbitrary: p)
  case Nil
  then show ?case by simp
next
  case (Cons ev evs)
  show ?case
  proof (cases p)
    case (Terminated e)
    then show ?thesis by (simp add: spin_Terminated)
  next
    case (Alive s)
    show ?thesis
    proof (cases "\<exists>m. ev = Scan m \<and> length (ranges m) < 360")
      case True
      then obtain m where "ev = Scan m" "length (ranges m) < 360" by blast
      then have "fst (dispatch g s ev) = Terminated (out_of_range (max 350 (length (ranges m))))"
        by (simp add: dispatch_Scan scan_callback_short)
      then show ?thesis
        using Alive by (simp add: spin_Alive spin_Terminated)
    next
      case False
      with Cons.prems have "\<exists>m. Scan m \<in> set evs \<and> length (ranges m) < 360"
        by auto
      from Cons.IH [OF this] show ?thesis
        using Alive by (simp add: spin_Alive)
    qed
  qed
qed


lemma take_set_nth: "k \<le> length xs \<Longrightarrow> (x \<in> set (take k xs)) = (\<exists>j<k. xs ! j = x)"
  by (auto simp: in_set_conv_nth)

subsection \<open>The publish gate\<close>

text \<open>
  C9. A tick publishes at most one command, none while \<open>initial_scan\<close> is clear and
  exactly one once it is set. In every execution from a new node, each event publishes
  at most one command and only a tick publishes; a tick before any scan publishes
  nothing, and a tick after the first scan publishes exactly one command as long as
  the process runs, which it does when every scan so far had at least 360 samples.
  After a shorter scan the process has ended and nothing is published.
\<close>

theorem C9_publish_gate:
  "length (snd (update_callback s)) \<le> 1
   \<and> (\<not> initial_scan s \<longrightarrow> update_callback s = (s, []))
   \<and> (initial_scan s \<longrightarrow> length (snd (update_callback s)) = 1)
   \<and> (\<forall>k<length evs.
        length (snd (spin g (Alive (WallFollower_new sx sy)) evs) ! k) \<le> 1
      \<and> (evs ! k \<noteq> Timer \<longrightarrow> snd (spin g (Alive (WallFollower_new sx sy)) evs) ! k = [])
      \<and> ((\<forall>j<k. \<forall>m. evs ! j \<noteq> Scan m) \<longrightarrow>
            snd (spin g (Alive (WallFollower_new sx sy)) evs) ! k = [])
      \<and> (evs ! k = Timer \<and> (\<exists>j<k. \<exists>m. evs ! j = Scan m)
            \<and> (\<exists>s'. fst (spin g (Alive (WallFollower_new sx sy)) (take k evs)) = Alive s') \<longrightarrow>
            length (snd (spin g (Alive (WallFollower_new sx sy)) evs) ! k) = 1)
      \<and> ((\<forall>j<k. \<forall>m. evs ! j = Scan m \<longrightarrow> 360 \<le> length (ranges m)) \<longrightarrow>
            (\<exists>s'. fst (spin g (Alive (WallFollower_new sx sy)) (take k evs)) = Alive s'))
      \<and> ((\<exists>j<k. \<exists>m. evs ! j = Scan m \<and> length (ranges m) < 360) \<longrightarrow>
            snd (spin g (Alive (WallFollower_new sx sy)) evs) ! k = []))"
proof -
  let ?init = "WallFollower_new sx sy"
  let ?outs = "snd (spin g (Alive ?init) evs)"
  have tick: "length (snd (update_callback s)) \<le> 1
     \<and> (\<not> initial_scan s \<longrightarrow> update_callback s = (s, []))
     \<and> (initial_scan s \<longrightarrow> length (snd (update_callback s)) = 1)"
    using update_callback_gate [of s] by (cases "initial_scan s") simp_all
  have init: "\<not> initial_scan ?init" "length (scan_data ?init) = 12"
    by (simp_all add: WallFollower_new_def)
  have run: "length (?outs ! k) \<le> 1
      \<and> (evs ! k \<noteq> Timer \<longrightarrow> ?outs ! k = [])
      \<and> ((\<forall>j<k. \<forall>m. evs ! j \<noteq> Scan m) \<longrightarrow> ?outs ! k = [])
      \<and> (evs ! k = Timer \<and> (\<exists>j<k. \<exists>m. evs ! j = Scan m)
            \<and> (\<exists>s'. fst (spin g (Alive ?init) (take k evs)) = Alive s') \<longrightarrow> length (?outs ! k) = 1)
      \<and> ((\<forall>j<k. \<forall>m. evs ! j = Scan m \<longrightarrow> 360 \<le> length (ranges m)) \<longrightarrow>
            (\<exists>s'. fst (spin g (Alive ?init) (take k evs)) = Alive s'))
      \<and> ((\<exists>j<k. \<exists>m. evs ! j = Scan m \<and> length (ranges m) < 360) \<longrightarrow> ?outs ! k = [])"
    if k: "k < length evs" for k
  proof -
    let ?p = "fst (spin g (Alive ?init) (take k evs))"
    have nth: "?outs ! k = (case ?p of Alive s \<Rightarrow> snd (dispatch g s (evs ! k)) | Terminated e \<Rightarrow> [])"
      using k by (rule spin_nth)
    have mem: "(x \<in> set (take k evs)) = (\<exists>j<k. evs ! j = x)" for x
      using k by (simp add: take_set_nth)
    have c1: "length (?outs ! k) \<le> 1"
      unfolding nth using dispatch_length by (cases ?p) simp_all
    have c2: "?outs ! k = []" if "evs ! k \<noteq> Timer"
      unfolding nth using that dispatch_not_Timer by (cases ?p) simp_all
    have c3: "?outs ! k = []" if h: "\<forall>j<k. \<forall>m. evs ! j \<noteq> Scan m"
    proof (cases "evs ! k = Timer")
      case False
      then show ?thesis by (rule c2)
    next
      case True
      from h have "\<forall>ev\<in>set (take k evs). \<forall>m. ev \<noteq> Scan m"
        by (auto simp: mem)
      from spin_before_first_scan [OF this init(1)] obtain s' where
        "?p = Alive s'" "\<not> initial_scan s'" by blast
      then show ?thesis
        unfolding nth using True by (simp add: dispatch_Timer update_callback_gate)
    qed
    have c4: "length (?outs ! k) = 1"
      if "evs ! k = Timer" and "\<exists>j<k. \<exists>m. evs ! j = Scan m" and "?p = Alive s'" for s'
    proof -
      from that(2) have "\<exists>m. Scan m \<in> set (take k evs)"
        by (auto simp: mem)
      with spin_keeps [OF that(3)] have "initial_scan s'" by simp
      then show ?thesis
        unfolding nth using that(1,3) by (simp add: dispatch_Timer update_callback_gate)
    qed
    have c5: "\<exists>s'. ?p = Alive s'" if h: "\<forall>j<k. \<forall>m. evs ! j = Scan m \<longrightarrow> 360 \<le> length (ranges m)"
    proof -
      from h have "\<forall>ev\<in>set (take k evs). \<forall>m. ev = Scan m \<longrightarrow> 360 \<le> length (ranges m)"
        by (auto simp: mem)
      from spin_after_scans [OF this init(2)] show ?thesis by blast
    qed
    have c6: "?outs ! k = []" if "\<exists>j<k. \<exists>m. evs ! j = Scan m \<and> length (ranges m) < 360"
    proof -
      from that have "\<exists>m. Scan m \<in> set (take k evs) \<and> length (ranges m) < 360"
        by (auto simp: mem)
      from spin_short_scan [OF this] obtain e where "?p = Terminated e" by blast
      then show ?thesis unfolding nth by simp
    qed
    show ?thesis
      using c1 c2 c3 c4 c5 c6 by blast
  qed
  show ?thesis
    using tick run by blast
qed


theorem C9_witness:
  "snd (spin vector_part (Alive (WallFollower_new 0 0))
          [Timer, Odom \<lparr>position_x = 0, position_y = 0, orientation = (0, 0, 0, 1)\<rparr>,
           Scan \<lparr>range_max = 1, ranges = replicate 360 1\<rparr>, Timer, Timer]) ! 0 = []
   \<and> length (snd (spin vector_part (Alive (WallFollower_new 0 0))
          [Timer, Odom \<lparr>position_x = 0, position_y = 0, orientation = (0, 0, 0, 1)\<rparr>,
           Scan \<lparr>range_max = 1, ranges = replicate 360 1\<rparr>, Timer, Timer]) ! 3) = 1"
proof -
  let ?evs = "[Timer, Odom \<lparr>position_x = 0, position_y = 0, orientation = (0, 0, 0, 1)\<rparr>,
           Scan \<lparr>range_max = 1, ranges = replicate 360 1\<rparr>, Timer, Timer]"
  note gate = C9_publish_gate [where evs = ?evs and g = vector_part and sx = 0 and sy = 0
      and s = "WallFollower_new 0 0"]
  have k0: "0 < length ?evs" and k3: "3 < length ?evs"
    by simp_all
  have none: "\<forall>j<0. \<forall>m. ?evs ! j \<noteq> Scan m"
    by simp
  have tick: "?evs ! 3 = Timer"
    by simp
  have some: "\<exists>j<3. \<exists>m. ?evs ! j = Scan m"
    by (rule exI [of _ 2]) simp
  have good: "\<forall>j<3. \<forall>m. ?evs ! j = Scan m \<longrightarrow> 360 \<le> length (ranges m)"
    by (auto simp: numeral_3_eq_3 less_Suc_eq)
  from gate k0 none have "snd (spin vector_part (Alive (WallFollower_new 0 0)) ?evs) ! 0 = []"
    by blast
  moreover from gate k3 good
  have "\<exists>s'. fst (spin vector_part (Alive (WallFollower_new 0 0)) (take 3 ?evs)) = Alive s'"
    by blast
  with gate k3 tick some
  have "length (snd (spin vector_part (Alive (WallFollower_new 0 0)) ?evs) ! 3) = 1"
    by blast
  ultimately show ?thesis by blast
qed

subsection \<open>The near-start flag\<close>

lemma scan_callback_const:
  assumes "360 \<le> length (ranges msg)" and "\<forall>r\<in>set (ranges msg). range_max msg \<le> r"
    and "length (scan_data s) = 12"
  shows "scan_callback s msg
     = (None, s\<lparr>initial_scan := True, new_scan_data := True,
                 scan_data := replicate 12 (range_max msg)\<rparr>)"
proof -
  have "map (spec_clearance msg) [0..<12] = replicate 12 (range_max msg)"
  proof (rule nth_equalityI)
    show "length (map (spec_clearance msg) [0..<12]) = length (replicate 12 (range_max msg))"
      by simp
    fix i assume "i < length (map (spec_clearance msg) [0..<12])"
    then have "i < 12" by simp
    then show "map (spec_clearance msg) [0..<12] ! i = replicate 12 (range_max msg) ! i"
      using clearance_const [of i msg] assms(1,2) by (simp del: upt_Suc)
  qed
  then show ?thesis
    using assms(1,3) by (simp add: scan_callback_ok)
qed

lemma update_callback_stop:
  "near_start s \<Longrightarrow> initial_scan s \<Longrightarrow> snd (update_callback s) = [\<lparr>linear_x = 0, angular_z = 0\<rparr>]"
  by (simp add: update_callback_def Let_def update_velocity_def update_cmd_vel_def)

text \<open>
  C1, as the code has it. When the tracker has departed and a pose update comes back
  within 0.2 of the start on both axes, \<open>odom_callback\<close> sets \<open>near_start\<close>. No callback
  clears the flag: it stays set through every later pose update, scan and tick, so the
  first tick after it selects the stop rule and publishes (0, 0), and so does every
  later tick, with or without a new departure and return.
\<close>

theorem C1_near_start_is_latched:
  "(\<not> first s \<and> \<not> start_moving s
      \<and> \<bar>position_x msg - start_x s\<bar> < 0.2 \<and> \<bar>position_y msg - start_y s\<bar> < 0.2 \<longrightarrow>
        near_start (fst (odom_callback g s msg))
      \<and> snd (odom_callback g s msg) = [''Near start!!''])
   \<and> (near_start s \<longrightarrow>
        near_start (fst (odom_callback g s msg))
      \<and> near_start (snd (scan_callback s scan))
      \<and> near_start (fst (update_callback s))
      \<and> (initial_scan s \<longrightarrow> snd (update_callback s) = [\<lparr>linear_x = 0, angular_z = 0\<rparr>])
      \<and> (\<forall>k<length evs.
            snd (spin g (Alive s) evs) ! k = []
          \<or> snd (spin g (Alive s) evs) ! k = [\<lparr>linear_x = 0, angular_z = 0\<rparr>])
      \<and> (\<forall>k<length evs.
            evs ! k = Timer \<and> initial_scan s
            \<and> (\<exists>s'. fst (spin g (Alive s) (take k evs)) = Alive s') \<longrightarrow>
            snd (spin g (Alive s) evs) ! k = [\<lparr>linear_x = 0, angular_z = 0\<rparr>]))"
proof -
  let ?stop = "[\<lparr>linear_x = 0, angular_z = 0\<rparr>]"
  have raise: "near_start (fst (odom_callback g s msg)) \<and> snd (odom_callback g s msg) = [''Near start!!'']"
    if "\<not> first s" "\<not> start_moving s"
      "\<bar>position_x msg - start_x s\<bar> < 0.2" "\<bar>position_y msg - start_y s\<bar> < 0.2"
    using that by (simp add: odom_callback_def Let_def START_RANGE_def split: prod.splits)
  have held: "snd (spin g (Alive s) evs) ! k = [] \<or> snd (spin g (Alive s) evs) ! k = ?stop"
    and ticks: "evs ! k = Timer \<and> initial_scan s
            \<and> (\<exists>s'. fst (spin g (Alive s) (take k evs)) = Alive s') \<longrightarrow>
            snd (spin g (Alive s) evs) ! k = ?stop"
    if ns: "near_start s" and k: "k < length evs" for k
  proof -
    let ?p = "fst (spin g (Alive s) (take k evs))"
    have nth: "snd (spin g (Alive s) evs) ! k
                 = (case ?p of Alive s \<Rightarrow> snd (dispatch g s (evs ! k)) | Terminated e \<Rightarrow> [])"
      using k by (rule spin_nth)
    have alive: "near_start s' \<and> (initial_scan s \<longrightarrow> initial_scan s')" if "?p = Alive s'" for s'
      using spin_keeps [OF that] ns by simp
    show "snd (spin g (Alive s) evs) ! k = [] \<or> snd (spin g (Alive s) evs) ! k = ?stop"
    proof (cases ?p)
      case (Terminated e)
      then show ?thesis unfolding nth by simp
    next
      case (Alive s')
      show ?thesis
      proof (cases "evs ! k = Timer \<and> initial_scan s'")
        case True
        then show ?thesis
          unfolding nth using Alive alive [OF Alive]
          by (simp add: dispatch_Timer update_callback_stop)
      next
        case False
        then have "snd (dispatch g s' (evs ! k)) = []"
          using dispatch_not_Timer [of "evs ! k" g s']
          by (cases "evs ! k = Timer") (simp_all add: dispatch_Timer update_callback_gate)
        then show ?thesis unfolding nth using Alive by simp
      qed
    qed
    show "evs ! k = Timer \<and> initial_scan s
            \<and> (\<exists>s'. ?p = Alive s') \<longrightarrow> snd (spin g (Alive s) evs) ! k = ?stop"
      unfolding nth using alive by (auto simp: dispatch_Timer update_callback_stop)
  qed
  show ?thesis
    using raise held ticks
    by (simp add: odom_callback_keeps scan_callback_keeps update_callback_keeps update_callback_stop)
qed


theorem C1_witness:
  "near_start (fst (odom_callback vector_part
       ((WallFollower_new 0 0)\<lparr>first := False, start_moving := False\<rparr>)
       \<lparr>position_x = 0.05, position_y = 0.05, orientation = (0, 0, 0, 1)\<rparr>))
   \<and> snd (spin vector_part
       (Alive ((WallFollower_new 0 0)\<lparr>near_start := True, initial_scan := True\<rparr>))
       [Timer, Timer]) ! 1 = [\<lparr>linear_x = 0, angular_z = 0\<rparr>]"
proof -
  let ?dep = "(WallFollower_new 0 0)\<lparr>first := False, start_moving := False\<rparr>"
  let ?msg = "\<lparr>position_x = 0.05, position_y = 0.05, orientation = (0, 0, 0, 1)\<rparr>"
  let ?near = "(WallFollower_new 0 0)\<lparr>near_start := True, initial_scan := True\<rparr>"
  have dep: "\<not> first ?dep \<and> \<not> start_moving ?dep
      \<and> \<bar>position_x ?msg - start_x ?dep\<bar> < 0.2 \<and> \<bar>position_y ?msg - start_y ?dep\<bar> < 0.2"
    by (simp add: WallFollower_new_def)
  have near: "near_start ?near" "initial_scan ?near"
    by (simp_all add: WallFollower_new_def)
  have k: "1 < length [Timer, Timer]" "[Timer, Timer] ! 1 = Timer"
    by simp_all
  have alive: "\<exists>s'. fst (spin vector_part (Alive ?near) (take 1 [Timer, Timer])) = Alive s'"
    by (simp add: spin_Alive dispatch_Timer)
  from C1_near_start_is_latched [where s = ?dep and msg = ?msg and g = vector_part] dep
  have "near_start (fst (odom_callback vector_part ?dep ?msg))"
    by blast
  moreover from C1_near_start_is_latched [where s = ?near and g = vector_part
      and evs = "[Timer, Timer]"] near k alive
  have "snd (spin vector_part (Alive ?near) [Timer, Timer]) ! 1 = [\<lparr>linear_x = 0, angular_z = 0\<rparr>]"
    by blast
  ultimately show ?thesis by blast
qed

text \<open>
  After one scan and the pose sequence (0,0), (1,1), (0.05,0.05), three ticks in a row
  publish the stop command, the second and third without any further pose update; the
  flag is still set after them. The clearances, all 1.0, would select rule 2 otherwise.
\<close>

theorem C1_counterexample:
  "spin vector_part (Alive (WallFollower_new 0 0))
     [Scan \<lparr>range_max = 1, ranges = replicate 360 1\<rparr>,
      Odom \<lparr>position_x = 0, position_y = 0, orientation = (0, 0, 0, 1)\<rparr>,
      Odom \<lparr>position_x = 1, position_y = 1, orientation = (0, 0, 0, 1)\<rparr>,
      Odom \<lparr>position_x = 0.05, position_y = 0.05, orientation = (0, 0, 0, 1)\<rparr>,
      Timer, Timer, Timer]
   = (Alive \<lparr>robot_pose = 0, start_x = 0, start_y = 0, near_start = True,
        scan_data = replicate 12 1, initial_scan = True, new_scan_data = False,
        since_new_scan = 2, first = True, start_moving = True\<rparr>,
      [ [], [], [], [],
       [\<lparr>linear_x = 0, angular_z = 0\<rparr>],
       [\<lparr>linear_x = 0, angular_z = 0\<rparr>],
       [\<lparr>linear_x = 0, angular_z = 0\<rparr>]])"
  by (simp add: spin_Alive dispatch_Scan dispatch_Odom dispatch_Timer scan_callback_const
      odom_callback_def update_callback_def update_velocity_def update_cmd_vel_def
      WallFollower_new_def vector_part_def START_RANGE_def Let_def)


subsection \<open>The staleness counter\<close>

lemma odom_callback_keeps_staleness:
  "new_scan_data (fst (odom_callback g s msg)) = new_scan_data s"
  "since_new_scan (fst (odom_callback g s msg)) = since_new_scan s"
  by (simp_all add: odom_callback_def Let_def split: prod.splits)

lemma scan_callback_keeps_staleness:
  "new_scan_data (snd (scan_callback s msg))"
  "since_new_scan (snd (scan_callback s msg)) = since_new_scan s"
  using scan_callback_frame [of s msg] by auto

lemma dispatch_quiet:
  assumes "ev \<noteq> Timer" and "fst (dispatch g s ev) = Alive s'"
  shows "since_new_scan s' = since_new_scan s
       \<and> new_scan_data s' = (new_scan_data s \<or> (\<exists>m. ev = Scan m))"
proof (cases ev)
  case (Scan msg)
  with assms show ?thesis
    by (auto simp: dispatch_Scan scan_callback_keeps_staleness split: option.splits)
next
  case (Odom msg)
  with assms show ?thesis
    by (auto simp: dispatch_Odom odom_callback_keeps_staleness)
next
  case Timer
  with assms show ?thesis by simp
qed

lemma spin_quiet:
  assumes "\<forall>ev\<in>set evs. ev \<noteq> Timer" and "fst (spin g (Alive s) evs) = Alive s'"
  shows "since_new_scan s' = since_new_scan s
       \<and> new_scan_data s' = (new_scan_data s \<or> (\<exists>m. Scan m \<in> set evs))"
  using assms
proof (induction evs arbitrary: s)
  case Nil
  then show ?case by simp
next
  case (Cons ev evs)
  from Cons.prems have run: "fst (spin g (fst (dispatch g s ev)) evs) = Alive s'"
    by (simp add: spin_Alive)
  then obtain s1 where s1: "fst (dispatch g s ev) = Alive s1"
    using spin_Terminated_stays by blast
  from Cons.prems have "ev \<noteq> Timer" and rest: "\<forall>ev\<in>set evs. ev \<noteq> Timer"
    by simp_all
  from dispatch_quiet [OF this(1) s1] Cons.IH [OF rest, of s1] run s1 show ?case
    by auto
qed

lemma update_callback_tick:
  assumes "initial_scan s"
  shows "\<not> new_scan_data (fst (update_callback s))"
    and "since_new_scan (fst (update_callback s))
           = (if new_scan_data s then 0 else since_new_scan s + 1)"
    and "initial_scan (fst (update_callback s))"
    and "snd (update_callback s)
           = [\<lparr>linear_x = fst (spec_rule_ladder (near_start s) (scan_data s))
                          * factor (fst (update_callback s)),
               angular_z = snd (spec_rule_ladder (near_start s) (scan_data s))
                          * factor (fst (update_callback s))\<rparr>]"
  using assms
  by (simp_all add: update_callback_def Let_def update_velocity_ladder update_cmd_vel_def factor_def)

text \<open>
  C5. Only a tick changes \<open>since_new_scan\<close>; a scan sets \<open>new_scan_data\<close>, a tick that
  passes the gate clears it and nothing else does. So on a tick after the first scan
  the counter becomes 0 if a scan arrived since the previous tick (or since any earlier
  point, no tick in between), and the value the previous tick left plus 1 if the
  previous tick ran and no scan arrived since (as integers below \<^verbatim>\<open>INT_MAX\<close>, where the
  increment does not overflow). The command published on that tick is the ladder's
  command with both components multiplied by 0.8 raised to the new counter value: the
  factor is 1 at counter 0 and 0.512 at counter 3.
\<close>

theorem C5_staleness_counter_and_factor:
  assumes "\<forall>ev\<in>set evs. ev \<noteq> Timer" and "fst (spin g (Alive s) evs) = Alive s2"
  shows "since_new_scan s2 = since_new_scan s
       \<and> new_scan_data s2 = (new_scan_data s \<or> (\<exists>m. Scan m \<in> set evs))
       \<and> (initial_scan s2 \<longrightarrow> \<not> new_scan_data (fst (update_callback s2)))
       \<and> ((\<exists>m. Scan m \<in> set evs) \<longrightarrow>
            initial_scan s2 \<and> since_new_scan (fst (update_callback s2)) = 0)
       \<and> (initial_scan s0 \<and> s = fst (update_callback s0) \<and> (\<forall>m. Scan m \<notin> set evs) \<longrightarrow>
            initial_scan s2
          \<and> since_new_scan (fst (update_callback s2)) = since_new_scan s + 1
          \<and> (sint (since_new_scan s) < 2147483647 \<longrightarrow>
               sint (since_new_scan (fst (update_callback s2))) = sint (since_new_scan s) + 1))
       \<and> (initial_scan s2 \<and> 0 \<le> sint (since_new_scan (fst (update_callback s2))) \<longrightarrow>
            snd (update_callback s2)
              = [\<lparr>linear_x = fst (spec_rule_ladder (near_start s2) (scan_data s2))
                     * 0.8 ^ nat (sint (since_new_scan (fst (update_callback s2)))),
                  angular_z = snd (spec_rule_ladder (near_start s2) (scan_data s2))
                     * 0.8 ^ nat (sint (since_new_scan (fst (update_callback s2))))\<rparr>]
          \<and> factor (fst (update_callback s2))
              = 0.8 ^ nat (sint (since_new_scan (fst (update_callback s2)))))
       \<and> (since_new_scan (fst (update_callback s2)) = 0 \<longrightarrow> factor (fst (update_callback s2)) = 1)
       \<and> (since_new_scan (fst (update_callback s2)) = 3 \<longrightarrow>
            factor (fst (update_callback s2)) = 0.512)"
proof -
  let ?t = "fst (update_callback s2)"
  have quiet: "since_new_scan s2 = since_new_scan s"
    "new_scan_data s2 = (new_scan_data s \<or> (\<exists>m. Scan m \<in> set evs))"
    using spin_quiet [OF assms] by simp_all
  have clears: "\<not> new_scan_data ?t" if "initial_scan s2"
    using that by (rule update_callback_tick(1))
  have fresh: "initial_scan s2 \<and> since_new_scan ?t = 0" if "\<exists>m. Scan m \<in> set evs"
  proof -
    have i: "initial_scan s2" using spin_keeps [OF assms(2)] that by simp
    moreover have "new_scan_data s2" using quiet(2) that by simp
    ultimately show ?thesis using update_callback_tick(2) [OF i] by simp
  qed
  have stale: "initial_scan s2 \<and> since_new_scan ?t = since_new_scan s + 1
          \<and> (sint (since_new_scan s) < 2147483647 \<longrightarrow>
               sint (since_new_scan ?t) = sint (since_new_scan s) + 1)"
    if "initial_scan s0" "s = fst (update_callback s0)" "\<forall>m. Scan m \<notin> set evs"
  proof -
    have "initial_scan s" "\<not> new_scan_data s"
      using that(1,2) update_callback_tick(1,3) [OF that(1)] by simp_all
    then have i: "initial_scan s2" and "\<not> new_scan_data s2"
      using spin_keeps [OF assms(2)] quiet(2) that(3) by simp_all
    then have "since_new_scan ?t = since_new_scan s + 1"
      using update_callback_tick(2) [OF i] quiet(1) by simp
    then show ?thesis
      using i by (simp add: sint_increment)
  qed
  have pub: "snd (update_callback s2)
              = [\<lparr>linear_x = fst (spec_rule_ladder (near_start s2) (scan_data s2))
                     * 0.8 ^ nat (sint (since_new_scan ?t)),
                  angular_z = snd (spec_rule_ladder (near_start s2) (scan_data s2))
                     * 0.8 ^ nat (sint (since_new_scan ?t))\<rparr>]
          \<and> factor ?t = 0.8 ^ nat (sint (since_new_scan ?t))"
    if "initial_scan s2" "0 \<le> sint (since_new_scan ?t)"
  proof -
    have f: "factor ?t = 0.8 ^ nat (sint (since_new_scan ?t))"
      using that(2) by (simp add: factor_def pow_def BASE_FACTOR_def)
    show ?thesis
      using update_callback_tick(4) [OF that(1)] f by simp
  qed
  have f0: "factor ?t = 1" if "since_new_scan ?t = 0"
    using that by (simp add: factor_def pow_def)
  have f3: "factor ?t = 0.512" if "since_new_scan ?t = 3"
    using that by (simp add: factor_def pow_def BASE_FACTOR_def power3_eq_cube)
  show ?thesis
    using quiet clears fresh stale pub f0 f3 by blast
qed


theorem C5_witness:
  "sint (since_new_scan (fst (update_callback (fst (odom_callback vector_part
      (fst (update_callback ((WallFollower_new 0 0)\<lparr>initial_scan := True, since_new_scan := 1\<rparr>)))
      \<lparr>position_x = 0, position_y = 0, orientation = (0, 0, 0, 1)\<rparr>))))) = 3
   \<and> snd (update_callback (fst (odom_callback vector_part
      (fst (update_callback ((WallFollower_new 0 0)\<lparr>initial_scan := True, since_new_scan := 1\<rparr>)))
      \<lparr>position_x = 0, position_y = 0, orientation = (0, 0, 0, 1)\<rparr>)))
       = [\<lparr>linear_x = 0, angular_z = - 0.768\<rparr>]
   \<and> since_new_scan (fst (update_callback (snd (scan_callback
      ((WallFollower_new 0 0)\<lparr>initial_scan := True, since_new_scan := 5\<rparr>)
      \<lparr>range_max = 1, ranges = replicate 360 1\<rparr>)))) = 0
   \<and> factor (fst (update_callback (snd (scan_callback
      ((WallFollower_new 0 0)\<lparr>initial_scan := True, since_new_scan := 5\<rparr>)
      \<lparr>range_max = 1, ranges = replicate 360 1\<rparr>)))) = 1"
proof -
  let ?before = "(WallFollower_new 0 0)\<lparr>initial_scan := True, since_new_scan := 1\<rparr>"
  let ?s = "fst (update_callback ?before)"
  let ?p = "\<lparr>position_x = 0, position_y = 0, orientation = (0, 0, 0, 1)\<rparr>"
  let ?s2 = "fst (odom_callback vector_part ?s ?p)"
  let ?t = "fst (update_callback ?s2)"
  let ?u = "(WallFollower_new 0 0)\<lparr>initial_scan := True, since_new_scan := 5\<rparr>"
  let ?m = "\<lparr>range_max = 1, ranges = replicate 360 1\<rparr>"
  let ?u2 = "snd (scan_callback ?u ?m)"
  have quietA: "\<forall>ev\<in>set [Odom ?p]. ev \<noteq> Timer" and noscan: "\<forall>m. Scan m \<notin> set [Odom ?p]"
    by simp_all
  have runA: "fst (spin vector_part (Alive ?s) [Odom ?p]) = Alive ?s2"
    by (simp add: spin_Alive dispatch_Odom)
  have s0: "initial_scan ?before"
    by (simp add: WallFollower_new_def)
  have s: "since_new_scan ?s = 2"
    by (simp add: update_callback_def Let_def WallFollower_new_def)
  note A = C5_staleness_counter_and_factor [OF quietA runA, where ?s0.0 = ?before]
  from A s0 noscan have stepA: "initial_scan ?s2" "since_new_scan ?t = since_new_scan ?s + 1"
    by blast+
  then have cA: "since_new_scan ?t = 3"
    by (simp add: s)
  then have sA: "sint (since_new_scan ?t) = 3"
    by simp
  with A stepA(1)
  have "snd (update_callback ?s2)
          = [\<lparr>linear_x = fst (spec_rule_ladder (near_start ?s2) (scan_data ?s2))
                     * 0.8 ^ nat (sint (since_new_scan ?t)),
              angular_z = snd (spec_rule_ladder (near_start ?s2) (scan_data ?s2))
                     * 0.8 ^ nat (sint (since_new_scan ?t))\<rparr>]"
    by simp
  moreover have "near_start ?s2 = False" "scan_data ?s2 = replicate 12 0"
    by (simp_all add: odom_callback_keeps update_callback_keeps odom_callback_def
        update_callback_def Let_def vector_part_def WallFollower_new_def)
  ultimately have pubA: "snd (update_callback ?s2) = [\<lparr>linear_x = 0, angular_z = - 0.768\<rparr>]"
    by (simp add: sA spec_rule_ladder_def power3_eq_cube)
  have quietB: "\<forall>ev\<in>set [Scan ?m]. ev \<noteq> Timer" and scanB: "\<exists>m. Scan m \<in> set [Scan ?m]"
    by simp_all
  have runB: "fst (spin vector_part (Alive ?u) [Scan ?m]) = Alive ?u2"
    by (simp add: spin_Alive dispatch_Scan scan_callback_const WallFollower_new_def)
  note B = C5_staleness_counter_and_factor [OF quietB runB]
  from B scanB have cB: "since_new_scan (fst (update_callback ?u2)) = 0"
    by blast
  with B have fB: "factor (fst (update_callback ?u2)) = 1"
    by blast
  show ?thesis
    using sA pubA cB fB by blast
qed

subsection \<open>Orientation\<close>

lemma pose_scan_data_commute:
  "(s :: WallFollower)\<lparr>robot_pose := r\<rparr>\<lparr>scan_data := xs\<rparr> = s\<lparr>scan_data := xs\<rparr>\<lparr>robot_pose := r\<rparr>"
  by (cases s) simp

lemma sector_loop_pose:
  "sector_loop msg i (s\<lparr>robot_pose := r\<rparr>)
     = (fst (sector_loop msg i s), (snd (sector_loop msg i s))\<lparr>robot_pose := r\<rparr>)"
proof (induction msg i s rule: sector_loop.induct)
  case (1 msg i s)
  let ?lo = "scan_angle ! i - BEAM_WIDTH" and ?hi = "scan_angle ! i + BEAM_WIDTH"
  show ?case
  proof (cases "i < 12")
    case False
    then show ?thesis
      by (simp add: sector_loop.simps [of msg i])
  next
    case True
    show ?thesis
    proof (cases "closest_loop (ranges msg) ?lo ?hi (range_max msg)")
      case (Inl e)
      then show ?thesis
        using True by (simp add: sector_loop.simps [of msg i])
    next
      case (Inr c)
      let ?s1 = "s\<lparr>scan_data := (scan_data s)[i := c]\<rparr>"
      have unfold: "sector_loop msg i t
                      = sector_loop msg (i + 1) (t\<lparr>scan_data := (scan_data t)[i := c]\<rparr>)" for t
        using True Inr by (subst sector_loop.simps) (simp only: if_True sum.case)
      have sd: "scan_data (s\<lparr>robot_pose := r\<rparr>) = scan_data s"
        by simp
      have "sector_loop msg i (s\<lparr>robot_pose := r\<rparr>)
              = sector_loop msg (i + 1) (?s1\<lparr>robot_pose := r\<rparr>)"
        by (subst unfold) (simp only: sd pose_scan_data_commute)
      also have "\<dots> = (fst (sector_loop msg (i + 1) ?s1),
                        (snd (sector_loop msg (i + 1) ?s1))\<lparr>robot_pose := r\<rparr>)"
        by (rule "1.IH" [OF True Inr])
      also have "sector_loop msg (i + 1) ?s1 = sector_loop msg i s"
        by (rule unfold [symmetric])
      finally show ?thesis .
    qed
  qed
qed

lemma scan_callback_pose:
  "scan_callback (s\<lparr>robot_pose := r\<rparr>) msg
     = (fst (scan_callback s msg), (snd (scan_callback s msg))\<lparr>robot_pose := r\<rparr>)"
proof -
  let ?s2 = "s\<lparr>initial_scan := True, new_scan_data := True\<rparr>"
  have s1: "(if \<not> initial_scan t then t\<lparr>initial_scan := True\<rparr> else t) = t\<lparr>initial_scan := True\<rparr>"
    for t :: WallFollower
    by simp
  have body: "scan_callback t msg =
      (case closest_loop (ranges msg) (360 - BEAM_WIDTH) 360 (range_max msg) of
         Inl e \<Rightarrow> (Some e, t\<lparr>initial_scan := True, new_scan_data := True\<rparr>)
       | Inr closest \<Rightarrow>
           (case closest_loop (ranges msg) 0 BEAM_WIDTH closest of
              Inl e \<Rightarrow> (Some e, t\<lparr>initial_scan := True, new_scan_data := True\<rparr>)
            | Inr closest \<Rightarrow>
                sector_loop msg 1 (t\<lparr>initial_scan := True, new_scan_data := True\<rparr>
                   \<lparr>scan_data := (scan_data t)[0 := closest]\<rparr>)))" for t
    by (simp add: scan_callback_def Let_def s1 split: sum.splits)
  have flags: "s\<lparr>robot_pose := r\<rparr>\<lparr>initial_scan := True, new_scan_data := True\<rparr> = ?s2\<lparr>robot_pose := r\<rparr>"
    by (cases s) simp
  have data: "?s2\<lparr>robot_pose := r\<rparr>\<lparr>scan_data := xs\<rparr> = ?s2\<lparr>scan_data := xs\<rparr>\<lparr>robot_pose := r\<rparr>" for xs
    by (rule pose_scan_data_commute)
  have sd: "scan_data (s\<lparr>robot_pose := r\<rparr>) = scan_data s"
    by simp
  show ?thesis
    unfolding body [of "s\<lparr>robot_pose := r\<rparr>"] body [of s] flags data sd sector_loop_pose
    by (simp split: sum.splits)
qed

lemma update_velocity_pose: "update_velocity (s\<lparr>robot_pose := r\<rparr>) = update_velocity s"
  by (simp add: update_velocity_def factor_def)

lemma update_callback_pose:
  "update_callback (s\<lparr>robot_pose := r\<rparr>)
     = ((fst (update_callback s))\<lparr>robot_pose := r\<rparr>, snd (update_callback s))"
  by (simp add: update_callback_def Let_def update_velocity_def factor_def)

lemma odom_callback_pose:
  assumes "position_x msg' = position_x msg" and "position_y msg' = position_y msg"
  shows "\<exists>r'. odom_callback g (s\<lparr>robot_pose := r\<rparr>) msg'
           = ((fst (odom_callback g s msg))\<lparr>robot_pose := r'\<rparr>, snd (odom_callback g s msg))"
proof -
  obtain a b y where g: "g (orientation msg) = (a, b, y)" by (cases "g (orientation msg)") auto
  obtain a' b' y' where g': "g (orientation msg') = (a', b', y')"
    by (cases "g (orientation msg')") auto
  have "odom_callback g (s\<lparr>robot_pose := r\<rparr>) msg'
           = ((fst (odom_callback g s msg))\<lparr>robot_pose := y'\<rparr>, snd (odom_callback g s msg))"
    using assms by (simp add: odom_callback_def Let_def g g')
  then show ?thesis by blast
qed

lemma forget_orientation_eq:
  assumes "forget_orientation ev = forget_orientation ev'"
  shows "(\<exists>m m'. ev = Odom m \<and> ev' = Odom m' \<and> position_x m' = position_x m
              \<and> position_y m' = position_y m) \<or> (ev' = ev \<and> (\<forall>m. ev \<noteq> Odom m))"
proof (cases ev)
  case (Odom m)
  then obtain m' where ev': "ev' = Odom m'"
    using assms by (cases ev') simp_all
  with Odom assms have eq: "m\<lparr>orientation := (0, 0, 0, 1)\<rparr> = m'\<lparr>orientation := (0, 0, 0, 1)\<rparr>"
    by simp
  have "position_x m' = position_x m" "position_y m' = position_y m"
    using arg_cong [OF eq, of position_x] arg_cong [OF eq, of position_y] by simp_all
  with Odom ev' show ?thesis by simp
next
  case (Scan m)
  then show ?thesis using assms by (cases ev') simp_all
next
  case Timer
  then show ?thesis using assms by (cases ev') simp_all
qed

lemma dispatch_pose:
  assumes "forget_orientation ev = forget_orientation ev'"
  shows "snd (dispatch g (s\<lparr>robot_pose := r\<rparr>) ev') = snd (dispatch g s ev)
       \<and> ((\<exists>s1 r1. fst (dispatch g s ev) = Alive s1
                 \<and> fst (dispatch g (s\<lparr>robot_pose := r\<rparr>) ev') = Alive (s1\<lparr>robot_pose := r1\<rparr>))
          \<or> (\<exists>e. fst (dispatch g s ev) = Terminated e
                 \<and> fst (dispatch g (s\<lparr>robot_pose := r\<rparr>) ev') = Terminated e))"
proof (cases ev)
  case (Odom m)
  with forget_orientation_eq [OF assms] obtain m' where
    m': "ev' = Odom m'" "position_x m' = position_x m" "position_y m' = position_y m"
    by auto
  from odom_callback_pose [OF m'(2,3), where g = g and s = s and r = r] show ?thesis
    using Odom m'(1) by (auto simp: dispatch_Odom)
next
  case (Scan m)
  with forget_orientation_eq [OF assms] have "ev' = Scan m" by auto
  then show ?thesis
    using Scan by (cases "fst (scan_callback s m)") (auto simp: dispatch_Scan scan_callback_pose)
next
  case Timer
  with forget_orientation_eq [OF assms] have "ev' = Timer" by auto
  then show ?thesis
    using Timer by (auto simp: dispatch_Timer update_callback_pose)
qed

lemma spin_pose:
  assumes "map forget_orientation evs = map forget_orientation evs'"
  shows "snd (spin g (Alive (s\<lparr>robot_pose := r\<rparr>)) evs') = snd (spin g (Alive s) evs)"
  using assms
proof (induction evs arbitrary: evs' s r)
  case Nil
  then show ?case by simp
next
  case (Cons ev evs)
  then obtain ev' rest where evs': "evs' = ev' # rest"
    and hd: "forget_orientation ev = forget_orientation ev'"
    and tl: "map forget_orientation evs = map forget_orientation rest"
    by (cases evs') auto
  from dispatch_pose [OF hd, where g = g and s = s and r = r]
  have out: "snd (dispatch g (s\<lparr>robot_pose := r\<rparr>) ev') = snd (dispatch g s ev)"
    and next_state: "(\<exists>s1 r1. fst (dispatch g s ev) = Alive s1
                 \<and> fst (dispatch g (s\<lparr>robot_pose := r\<rparr>) ev') = Alive (s1\<lparr>robot_pose := r1\<rparr>))
          \<or> (\<exists>e. fst (dispatch g s ev) = Terminated e
                 \<and> fst (dispatch g (s\<lparr>robot_pose := r\<rparr>) ev') = Terminated e)"
    by simp_all
  from next_state have "snd (spin g (fst (dispatch g (s\<lparr>robot_pose := r\<rparr>) ev')) rest)
          = snd (spin g (fst (dispatch g s ev)) evs)"
  proof
    assume "\<exists>s1 r1. fst (dispatch g s ev) = Alive s1
                 \<and> fst (dispatch g (s\<lparr>robot_pose := r\<rparr>) ev') = Alive (s1\<lparr>robot_pose := r1\<rparr>)"
    then show ?thesis
      using Cons.IH [OF tl] by auto
  next
    assume "\<exists>e. fst (dispatch g s ev) = Terminated e
                 \<and> fst (dispatch g (s\<lparr>robot_pose := r\<rparr>) ev') = Terminated e"
    moreover have "length rest = length evs"
      using tl by (metis length_map)
    ultimately show ?thesis
      by (auto simp: spin_Terminated)
  qed
  then show ?case
    using out evs' by (simp add: spin_Alive)
qed

text \<open>
  C10. Two executions from the same new node whose event sequences agree up to the
  orientation of their pose updates (same scans, same ticks, same positions, in the same
  order) publish the same commands, event by event: \<open>robot_pose\<close>, where the yaw is
  stored, is never read, and \<open>update_velocity\<close> does not depend on it.
\<close>

theorem C10_orientation_has_no_influence:
  assumes "map forget_orientation evs = map forget_orientation evs'"
  shows "snd (spin getRPY (Alive (WallFollower_new sx sy)) evs)
           = snd (spin getRPY (Alive (WallFollower_new sx sy)) evs')
       \<and> update_velocity (s\<lparr>robot_pose := yaw\<rparr>) = update_velocity s"
proof -
  have "WallFollower_new sx sy = (WallFollower_new sx sy)\<lparr>robot_pose := 0\<rparr>"
    by (simp add: WallFollower_new_def)
  then have "snd (spin getRPY (Alive (WallFollower_new sx sy)) evs')
           = snd (spin getRPY (Alive (WallFollower_new sx sy)) evs)"
    using spin_pose [OF assms, where g = getRPY and s = "WallFollower_new sx sy" and r = 0] by simp
  then show ?thesis
    by (simp add: update_velocity_pose)
qed

theorem C10_witness:
  "snd (spin vector_part (Alive (WallFollower_new 0 0))
          [Scan \<lparr>range_max = 1, ranges = replicate 360 1\<rparr>,
           Odom \<lparr>position_x = 0, position_y = 0, orientation = (0, 0, 0, 1)\<rparr>, Timer])
   = snd (spin vector_part (Alive (WallFollower_new 0 0))
          [Scan \<lparr>range_max = 1, ranges = replicate 360 1\<rparr>,
           Odom \<lparr>position_x = 0, position_y = 0, orientation = (0, 0, 1, 0)\<rparr>, Timer])"
  using C10_orientation_has_no_influence [where getRPY = vector_part and sx = 0 and sy = 0
      and evs = "[Scan \<lparr>range_max = 1, ranges = replicate 360 1\<rparr>,
           Odom \<lparr>position_x = 0, position_y = 0, orientation = (0, 0, 0, 1)\<rparr>, Timer]"
      and evs' = "[Scan \<lparr>range_max = 1, ranges = replicate 360 1\<rparr>,
           Odom \<lparr>position_x = 0, position_y = 0, orientation = (0, 0, 1, 0)\<rparr>, Timer]"]
  by simp

end
